theory Spec2Isabelle
  imports Main "HOL-Library.Sublist" "HOL-Library.Word"
begin

section \<open>Pause annotation of a chaos object\<close>

text \<open>
  The embedded \<open>metav1.ObjectMeta\<close> of every chaos kind. Only the fields read by the
  code below are kept. \<open>Annotations\<close> is a Go map that may be nil: \<open>None\<close> is the nil
  map, \<open>Some m\<close> an allocated one.
\<close>

record ObjectMeta =
  Namespace :: string
  Name :: string
  Annotations :: "(string \<rightharpoonup> string) option"

text \<open>
  Reading a Go \<open>map[string]string\<close> at a key: a nil map and a missing key both give the
  zero value, the empty string.
\<close>

definition mapIndex :: "(string \<rightharpoonup> string) option \<Rightarrow> string \<Rightarrow> string" where
  "mapIndex m k = (case m of None \<Rightarrow> [] | Some f \<Rightarrow> (case f k of None \<Rightarrow> [] | Some v \<Rightarrow> v))"

text \<open>
  \<open>IsPaused\<close> has the same body for AwsChaos, DNSChaos, GcpChaos, HTTPChaos, IOChaos,
  JVMChaos, KernelChaos, NetworkChaos, PodChaos, StressChaos and TimeChaos; it reads only
  the embedded ObjectMeta. The constant \<open>PauseAnnotationKey\<close> is declared outside the
  sources at hand, so the key is the first argument.
\<close>

definition IsPaused :: "string \<Rightarrow> ObjectMeta \<Rightarrow> bool" where
  "IsPaused PauseAnnotationKey meta =
     (if Annotations meta = None \<or> mapIndex (Annotations meta) PauseAnnotationKey \<noteq> ''true''
      then False else True)"

section \<open>Bandwidth rate parsing\<close>

subsection \<open>The string functions of the Go library that ToTbf calls\<close>













subsection \<open>BandwidthSpec.ToTbf\<close>








section \<open>Shared vocabulary of the reconcilers\<close>

text \<open>
  Errors of the cluster API and of the collaborators, as far as the code tells them apart:
  \<open>apierrors.IsNotFound\<close>, the conflict that \<open>retry.RetryOnConflict\<close> retries, and
  any other error with its message.
\<close>

datatype error = NotFound | Conflict | Failure string

type_synonym key = string

text \<open>\<open>ctrl.Result\<close>; the reconcilers below only ever return the empty one.\<close>

record Result =
  Requeue :: bool

definition emptyResult :: Result where
  "emptyResult = \<lparr> Requeue = False \<rparr>"

text \<open>
  What a pass does to the outside, in order: the lines it writes to its logger
  (\<open>Log.Info\<close>, \<open>Log.Error\<close> with the error it was given, which may be nil), the
  warning events it records, and the calls it makes on the chaos implementation and on the
  cluster client, with the object handed over. \<open>'o\<close> is the type of that object.
\<close>

datatype 'o Event =
    LogInfo string
  | LogError "error option" string
  | Eventf string string
  | CallApply nat
  | CallRecover nat
  | CallUpdate key 'o
  | CallDelete 'o
  | CallCreate 'o

text \<open>
  The environment of a pass: the state \<open>'w\<close> of everything outside the reconciler
  (cluster, fault executor) and the trace written so far.
\<close>

record ('w, 'o) Env =
  world :: 'w
  trace :: "'o Event list"

definition emit :: "'o Event \<Rightarrow> ('w, 'o) Env \<Rightarrow> ('w, 'o) Env" where
  "emit e s = s\<lparr> trace := trace s @ [e] \<rparr>"

text \<open>
  \<open>retry.RetryOnConflict(backoff, fn)\<close> of client-go: \<open>fn\<close> runs at most
  \<open>backoff.Steps\<close> times; success and any error other than a conflict end the loop at
  once, a conflict is remembered and retried, and when the steps are used up the last
  conflict is returned. \<open>DefaultBackoff\<close> has 4 steps, \<open>DefaultRetry\<close> has 5. The
  sleeping between attempts is not modelled.
\<close>

fun retryLoop :: "nat \<Rightarrow> ('s \<Rightarrow> error option \<times> 's) \<Rightarrow> error option \<Rightarrow> 's \<Rightarrow> error option \<times> 's" where
  "retryLoop 0 fn lastErr s = (lastErr, s)"
| "retryLoop (Suc n) fn lastErr s =
     (case fn s of
        (None, s') \<Rightarrow> (None, s')
      | (Some err, s') \<Rightarrow>
          if err = Conflict then retryLoop n fn (Some err) s' else (Some err, s'))"

definition RetryOnConflict :: "nat \<Rightarrow> ('s \<Rightarrow> error option \<times> 's) \<Rightarrow> 's \<Rightarrow> error option \<times> 's" where
  "RetryOnConflict steps fn s = retryLoop steps fn None s"

definition DefaultBackoff :: nat where
  "DefaultBackoff = 4"

definition DefaultRetry :: nat where
  "DefaultRetry = 5"

section \<open>Experiment reconciler\<close>

text \<open>
  Modelled from the spec: the declarations of \<open>v1alpha1.Phase\<close>,
  \<open>v1alpha1.DesiredPhase\<close> and \<open>v1alpha1.Record\<close> are not among the sources. The spec
  gives a record as \<open>{id, selectorKey, phase: NotInjected|Injected}\<close> and the desired
  phase as \<open>Running|Stopped\<close>.
\<close>

datatype Phase = NotInjected | Injected

datatype DesiredPhase = RunningPhase | StoppedPhase

record Record =
  RecordId :: string
  SelectorKey :: string
  Phase :: Phase

text \<open>
  The part of an \<open>InnerObjectWithSelector\<close> the reconciler reads:
  \<open>GetStatus().Experiment.DesiredPhase\<close>, \<open>GetStatus().Experiment.Records\<close> (a slice
  that may be nil: \<open>None\<close>) and \<open>GetSelectorSpecs()\<close>. The latter is a Go map, ranged
  over in an order the language leaves open; the association list holds its entries in
  the order in which the pass visits them.
\<close>

record 'sel Obj =
  DesiredPhase :: DesiredPhase
  Records :: "Record list option"
  SelectorSpecs :: "(string \<times> 'sel) list"

text \<open>
  The collaborators of \<open>Reconciler\<close>: the \<open>ChaosImpl\<close> (Apply and Recover return a
  phase and an error, both of which the caller receives), the cluster client and the
  target selector, whose \<open>Select\<close> returns the ids of the targets. Each acts on the
  outside state \<open>'w\<close>. An implementation is taken to act through its results and the
  outside state only, not by writing through the record pointers it is handed.
\<close>

record ('w, 'sel) Reconciler =
  Impl_Apply :: "nat \<Rightarrow> Record list \<Rightarrow> 'sel Obj \<Rightarrow> 'w \<Rightarrow> (Phase \<times> error option) \<times> 'w"
  Impl_Recover :: "nat \<Rightarrow> Record list \<Rightarrow> 'sel Obj \<Rightarrow> 'w \<Rightarrow> (Phase \<times> error option) \<times> 'w"
  Client_Get :: "key \<Rightarrow> 'w \<Rightarrow> (error + 'sel Obj) \<times> 'w"
  Client_Update :: "key \<Rightarrow> 'sel Obj \<Rightarrow> 'w \<Rightarrow> error option \<times> 'w"
  Selector_Select :: "'sel \<Rightarrow> 'w \<Rightarrow> (string list \<times> error option) \<times> 'w"

text \<open>The local variables of a pass while it ranges over the records.\<close>

record ('w, 'sel) Vars =
  records :: "Record list"
  shouldUpdate :: bool
  env :: "('w, 'sel Obj) Env"

definition logErr :: "error option \<Rightarrow> string \<Rightarrow> ('w, 'o) Env \<Rightarrow> ('w, 'o) Env" where
  "logErr err msg s = (case err of None \<Rightarrow> s | Some e \<Rightarrow> emit (LogError (Some e) msg) s)"

text \<open>
  Lines 79 to 98: one selector after the other; a failed \<open>Select\<close> is logged and its
  targets, if any, are still appended. \<open>append\<close> on a nil slice allocates.
\<close>

definition newRecord :: "string \<Rightarrow> string \<Rightarrow> Record" where
  "newRecord name target = \<lparr> RecordId = target, SelectorKey = name, Phase = NotInjected \<rparr>"

definition appendRecords :: "Record list option \<Rightarrow> Record list \<Rightarrow> Record list option" where
  "appendRecords recs new =
     (if new = [] then recs
      else Some ((case recs of None \<Rightarrow> [] | Some rs \<Rightarrow> rs) @ new))"

fun selectRecords ::
  "('w, 'sel) Reconciler \<Rightarrow> (string \<times> 'sel) list \<Rightarrow> Record list option \<Rightarrow> bool \<Rightarrow>
   ('w, 'sel Obj) Env \<Rightarrow> (Record list option \<times> bool) \<times> ('w, 'sel Obj) Env" where
  "selectRecords r [] recs upd s = ((recs, upd), s)"
| "selectRecords r ((name, sel) # selectors) recs upd s =
     (case Selector_Select r sel (world s) of
        ((targets, err), w') \<Rightarrow>
          selectRecords r selectors
            (appendRecords recs (map (newRecord name) targets))
            (upd \<or> targets \<noteq> [])
            (logErr err ''fail to select'' (s\<lparr> world := w' \<rparr>)))"

text \<open>
  The object as the implementation sees it during the loop. When the fetched record
  slice is not nil, the local \<open>records\<close> shares its pointers, so the phases written so
  far show in \<open>obj\<close> too; a list built by \<open>append\<close> from nil is not reachable from
  \<open>obj\<close>.
\<close>

definition objView :: "'sel Obj \<Rightarrow> Record list \<Rightarrow> 'sel Obj" where
  "objView obj rs = (case Records obj of None \<Rightarrow> obj | Some _ \<Rightarrow> obj\<lparr> Records := Some rs \<rparr>)"

text \<open>Lines 105 to 114, the first \<open>if\<close> of the loop body.\<close>

definition applyRecord ::
  "('w, 'sel) Reconciler \<Rightarrow> DesiredPhase \<Rightarrow> 'sel Obj \<Rightarrow> nat \<Rightarrow> ('w, 'sel) Vars \<Rightarrow> ('w, 'sel) Vars" where
  "applyRecord r desiredPhase obj index v =
     (if desiredPhase = RunningPhase \<and> Phase (records v ! index) \<noteq> Injected then
        (let s1 = emit (CallApply index) (emit (LogInfo ''apply chaos'') (env v))
         in case Impl_Apply r index (records v) (objView obj (records v)) (world s1) of
              ((phase, err), w') \<Rightarrow>
                \<lparr> records = (records v)[index := (records v ! index)\<lparr> Phase := phase \<rparr>],
                  shouldUpdate = True,
                  env = logErr err ''fail to apply chaos'' (s1\<lparr> world := w' \<rparr>) \<rparr>)
      else v)"

text \<open>Lines 115 to 124, the second \<open>if\<close>; it reads the phase the first one left.\<close>

definition recoverRecord ::
  "('w, 'sel) Reconciler \<Rightarrow> DesiredPhase \<Rightarrow> 'sel Obj \<Rightarrow> nat \<Rightarrow> ('w, 'sel) Vars \<Rightarrow> ('w, 'sel) Vars" where
  "recoverRecord r desiredPhase obj index v =
     (if desiredPhase = StoppedPhase \<and> Phase (records v ! index) \<noteq> NotInjected then
        (let s1 = emit (CallRecover index) (emit (LogInfo ''recover chaos'') (env v))
         in case Impl_Recover r index (records v) (objView obj (records v)) (world s1) of
              ((phase, err), w') \<Rightarrow>
                \<lparr> records = (records v)[index := (records v ! index)\<lparr> Phase := phase \<rparr>],
                  shouldUpdate = True,
                  env = logErr err ''fail to recover chaos'' (s1\<lparr> world := w' \<rparr>) \<rparr>)
      else v)"

definition reconcileRecord ::
  "('w, 'sel) Reconciler \<Rightarrow> DesiredPhase \<Rightarrow> 'sel Obj \<Rightarrow> ('w, 'sel) Vars \<Rightarrow> nat \<Rightarrow> ('w, 'sel) Vars" where
  "reconcileRecord r desiredPhase obj v index =
     recoverRecord r desiredPhase obj index
       (applyRecord r desiredPhase obj index
          (v\<lparr> env := emit (LogInfo ''iterating record'') (env v) \<rparr>))"

text \<open>
  Lines 102 to 125: \<open>for index, record := range records\<close>. The indices are fixed when
  the loop starts and the body keeps the length, so every \<open>records ! index\<close> above is
  in range.
\<close>

definition rangeRecords ::
  "('w, 'sel) Reconciler \<Rightarrow> DesiredPhase \<Rightarrow> 'sel Obj \<Rightarrow> ('w, 'sel) Vars \<Rightarrow> ('w, 'sel) Vars" where
  "rangeRecords r desiredPhase obj v =
     foldl (reconcileRecord r desiredPhase obj) v [0..<length (records v)]"

text \<open>Lines 129 to 138, the function handed to \<open>RetryOnConflict\<close>.\<close>

definition updateRecords ::
  "('w, 'sel) Reconciler \<Rightarrow> key \<Rightarrow> Record list option \<Rightarrow> ('w, 'sel Obj) Env \<Rightarrow>
   error option \<times> ('w, 'sel Obj) Env" where
  "updateRecords r req recs s =
     (let s1 = emit (LogInfo ''updating records'') s
      in case Client_Get r req (world s1) of
           (Inl err, w') \<Rightarrow> (Some err, emit (LogError (Some err) ''unable to get chaos'') (s1\<lparr> world := w' \<rparr>))
         | (Inr obj, w') \<Rightarrow>
             (let obj' = obj\<lparr> Records := recs \<rparr>;
                  s2 = emit (CallUpdate req obj') (s1\<lparr> world := w' \<rparr>)
              in case Client_Update r req obj' (world s2) of
                   (err, w'') \<Rightarrow> (err, s2\<lparr> world := w'' \<rparr>)))"

text \<open>
  Lines 71 to 100 after a successful fetch: the local \<open>records\<close> and \<open>shouldUpdate\<close>
  when the loop starts, with selection when the fetched record slice is nil.
\<close>

definition initialRecords ::
  "('w, 'sel) Reconciler \<Rightarrow> 'sel Obj \<Rightarrow> ('w, 'sel Obj) Env \<Rightarrow>
   (Record list option \<times> bool) \<times> ('w, 'sel Obj) Env" where
  "initialRecords r obj s =
     (if Records obj = None then selectRecords r (SelectorSpecs obj) None False s
      else ((Records obj, False), s))"

text \<open>
  Lines 71 to 125: the above, then the loop; ranging over a nil slice does nothing. The
  result pairs the local \<open>records\<close> with \<open>shouldUpdate\<close>.
\<close>

definition processRecords ::
  "('w, 'sel) Reconciler \<Rightarrow> 'sel Obj \<Rightarrow> ('w, 'sel Obj) Env \<Rightarrow>
   (Record list option \<times> bool) \<times> ('w, 'sel Obj) Env" where
  "processRecords r obj s =
     (case initialRecords r obj s of
        ((None, upd), s1) \<Rightarrow> ((None, upd), s1)
      | ((Some rs, upd), s1) \<Rightarrow>
          (let v = rangeRecords r (DesiredPhase obj) obj
                     \<lparr> records = rs, shouldUpdate = upd, env = s1 \<rparr>
           in ((Some (records v), shouldUpdate v), env v)))"

definition common_Reconcile ::
  "('w, 'sel) Reconciler \<Rightarrow> key \<Rightarrow> 'w \<Rightarrow> (Result \<times> error option) \<times> ('w, 'sel Obj) Env" where
  "common_Reconcile r req w =
     (case Client_Get r req w of
        (Inl err, w') \<Rightarrow>
          ((emptyResult, None),
           (if err = NotFound then emit (LogInfo ''chaos not found'')
            else emit (LogError (Some err) ''unable to get chaos''))
             \<lparr> world = w', trace = [] \<rparr>)
      | (Inr obj, w') \<Rightarrow>
          (case processRecords r obj \<lparr> world = w', trace = [] \<rparr> of
             ((recs, upd), s) \<Rightarrow>
               if upd then
                 (case RetryOnConflict DefaultBackoff (updateRecords r req recs) s of
                    (updateError, s') \<Rightarrow> ((emptyResult, None), logErr updateError ''fail to update'' s'))
               else ((emptyResult, None), s)))"

text \<open>
  A cluster for running passes: the object stored under the request key, the state of
  the fault executor, and a script of faults for the coming \<open>Update\<close> calls (each call
  takes the head of the script as its error; with an empty script the write goes
  through). Nothing but the reconciler writes to it.
\<close>

record ('x, 'sel) Cluster =
  stored :: "'sel Obj option"
  executor :: 'x
  updateFaults :: "error list"

definition clusterGet :: "key \<Rightarrow> ('x, 'sel) Cluster \<Rightarrow> (error + 'sel Obj) \<times> ('x, 'sel) Cluster" where
  "clusterGet k c = (case stored c of None \<Rightarrow> (Inl NotFound, c) | Some obj \<Rightarrow> (Inr obj, c))"

definition clusterUpdate :: "key \<Rightarrow> 'sel Obj \<Rightarrow> ('x, 'sel) Cluster \<Rightarrow> error option \<times> ('x, 'sel) Cluster" where
  "clusterUpdate k obj c =
     (case updateFaults c of
        [] \<Rightarrow> (None, c\<lparr> stored := Some obj \<rparr>)
      | e # es \<Rightarrow> (Some e, c\<lparr> updateFaults := es \<rparr>))"

definition onExecutor ::
  "('x \<Rightarrow> 'a \<times> 'x) \<Rightarrow> ('x, 'sel) Cluster \<Rightarrow> 'a \<times> ('x, 'sel) Cluster" where
  "onExecutor f c = (case f (executor c) of (a, x') \<Rightarrow> (a, c\<lparr> executor := x' \<rparr>))"

definition clusterReconciler ::
  "(nat \<Rightarrow> Record list \<Rightarrow> 'sel Obj \<Rightarrow> 'x \<Rightarrow> (Phase \<times> error option) \<times> 'x) \<Rightarrow>
   (nat \<Rightarrow> Record list \<Rightarrow> 'sel Obj \<Rightarrow> 'x \<Rightarrow> (Phase \<times> error option) \<times> 'x) \<Rightarrow>
   ('sel \<Rightarrow> string list \<times> error option) \<Rightarrow> (('x, 'sel) Cluster, 'sel) Reconciler" where
  "clusterReconciler app rec sel =
     \<lparr> Impl_Apply = (\<lambda>i rs obj. onExecutor (app i rs obj)),
       Impl_Recover = (\<lambda>i rs obj. onExecutor (rec i rs obj)),
       Client_Get = clusterGet,
       Client_Update = clusterUpdate,
       Selector_Select = (\<lambda>s c. (sel s, c)) \<rparr>"


text \<open>Reading the trace and the loop, for stating what a pass did.\<close>

definition loopAt ::
  "('w, 'sel) Reconciler \<Rightarrow> DesiredPhase \<Rightarrow> 'sel Obj \<Rightarrow> ('w, 'sel) Vars \<Rightarrow> nat \<Rightarrow> ('w, 'sel) Vars" where
  "loopAt r desiredPhase obj v i = foldl (reconcileRecord r desiredPhase obj) v [0..<i]"

fun isImplCall :: "'o Event \<Rightarrow> bool" where
  "isImplCall (CallApply i) = True"
| "isImplCall (CallRecover i) = True"
| "isImplCall e = False"

definition implCalls :: "'o Event list \<Rightarrow> 'o Event list" where
  "implCalls tr = filter isImplCall tr"

fun updatesOf :: "'o Event list \<Rightarrow> (key \<times> 'o) list" where
  "updatesOf [] = []"
| "updatesOf (CallUpdate k obj # tr) = (k, obj) # updatesOf tr"
| "updatesOf (e # tr) = updatesOf tr"

fun deletesOf :: "'o Event list \<Rightarrow> 'o list" where
  "deletesOf [] = []"
| "deletesOf (CallDelete obj # tr) = obj # deletesOf tr"
| "deletesOf (e # tr) = deletesOf tr"

definition ident :: "Record \<Rightarrow> string \<times> string" where
  "ident rec = (RecordId rec, SelectorKey rec)"

text \<open>
  The targets \<open>Select\<close> returns for each selector of a pass, in the order of the
  calls, each call on the outside state its predecessor left.
\<close>

fun selectedTargets ::
  "('w, 'sel) Reconciler \<Rightarrow> (string \<times> 'sel) list \<Rightarrow> 'w \<Rightarrow> (string \<times> string list) list" where
  "selectedTargets r [] w = []"
| "selectedTargets r ((name, sel) # selectors) w =
     (case Selector_Select r sel w of
        ((targets, err), w') \<Rightarrow> (name, targets) # selectedTargets r selectors w')"


definition recordsOf :: "'sel Obj \<Rightarrow> Record list" where
  "recordsOf obj = (case Records obj of None \<Rightarrow> [] | Some rs \<Rightarrow> rs)"

section \<open>Pause propagator\<close>

text \<open>
  A schedule and its jobs, as far as this controller reads and writes them: the
  ObjectMeta. \<open>Schedule.IsPaused\<close> and \<open>PauseAnnotationKey\<close> are declared in another
  package, so the reconciler carries them as fields next to its client and lister.
\<close>

record 'w PauseReconciler =
  Get_Schedule :: "key \<Rightarrow> 'w \<Rightarrow> (error + ObjectMeta) \<times> 'w"
  ListActiveJobs :: "ObjectMeta \<Rightarrow> 'w \<Rightarrow> (error + ObjectMeta list) \<times> 'w"
  Get_Job :: "key \<Rightarrow> 'w \<Rightarrow> (error + ObjectMeta) \<times> 'w"
  Update_Job :: "ObjectMeta \<Rightarrow> 'w \<Rightarrow> error option \<times> 'w"
  Schedule_IsPaused :: "ObjectMeta \<Rightarrow> bool"
  PauseAnnotationKey :: string

definition FormatBool :: "bool \<Rightarrow> string" where
  "FormatBool b = (if b then ''true'' else ''false'')"

text \<open>The \<open>%s\<close> form of a \<open>NamespacedName\<close>.\<close>

definition keyOf :: "ObjectMeta \<Rightarrow> key" where
  "keyOf item = Namespace item @ ''/'' @ Name item"

text \<open>Lines 76 to 79: allocate the annotation map when it is nil, then set the key.\<close>

definition setPause :: "string \<Rightarrow> string \<Rightarrow> ObjectMeta \<Rightarrow> ObjectMeta" where
  "setPause pk pause item =
     item\<lparr> Annotations := Some ((case Annotations item of None \<Rightarrow> Map.empty | Some m \<Rightarrow> m)(pk \<mapsto> pause)) \<rparr>"

text \<open>Lines 70 to 81, the function handed to \<open>RetryOnConflict\<close> for one job.\<close>

definition updatePause ::
  "'w PauseReconciler \<Rightarrow> key \<Rightarrow> string \<Rightarrow> ('w, ObjectMeta) Env \<Rightarrow> error option \<times> ('w, ObjectMeta) Env" where
  "updatePause r k pause s =
     (let s1 = emit (LogInfo ''updating object'') s
      in case Get_Job r k (world s1) of
           (Inl err, w') \<Rightarrow> (Some err, emit (LogError (Some err) ''unable to get schedule'') (s1\<lparr> world := w' \<rparr>))
         | (Inr item, w') \<Rightarrow>
             (let item' = setPause (PauseAnnotationKey r) pause item;
                  s2 = emit (CallUpdate k item') (s1\<lparr> world := w' \<rparr>)
              in case Update_Job r item' (world s2) of
                   (err, w'') \<Rightarrow> (err, s2\<lparr> world := w'' \<rparr>)))"

text \<open>
  Lines 60 to 89: the loop over the items; a failed update of one job ends the pass.
\<close>

fun pauseItems ::
  "'w PauseReconciler \<Rightarrow> ObjectMeta \<Rightarrow> ObjectMeta list \<Rightarrow> ('w, ObjectMeta) Env \<Rightarrow> ('w, ObjectMeta) Env" where
  "pauseItems r schedule [] s = s"
| "pauseItems r schedule (item # items) s =
     (if IsPaused (PauseAnnotationKey r) item \<noteq> Schedule_IsPaused r schedule then
        (let k = keyOf item;
             pause = FormatBool (Schedule_IsPaused r schedule)
         in case RetryOnConflict DefaultBackoff (updatePause r k pause) s of
              (Some updateError, s') \<Rightarrow>
                emit (Eventf ''Warning'' (''Failed to set pause to '' @ pause @ '' for '' @ k))
                  (emit (LogError (Some updateError) ''fail to update'') s')
            | (None, s') \<Rightarrow> pauseItems r schedule items s')
      else pauseItems r schedule items s)"

definition pause_Reconcile ::
  "'w PauseReconciler \<Rightarrow> key \<Rightarrow> 'w \<Rightarrow> (Result \<times> error option) \<times> ('w, ObjectMeta) Env" where
  "pause_Reconcile r req w =
     (case Get_Schedule r req w of
        (Inl err, w') \<Rightarrow>
          ((emptyResult, None),
           (if err \<noteq> NotFound then emit (LogError (Some err) ''unable to get chaos'') else (\<lambda>s. s))
             \<lparr> world = w', trace = [] \<rparr>)
      | (Inr schedule, w') \<Rightarrow>
          (case ListActiveJobs r schedule w' of
             (Inl err, w'') \<Rightarrow>
               ((emptyResult, None),
                emit (Eventf ''Warning'' ''Failed to list active jobs'') \<lparr> world = w'', trace = [] \<rparr>)
           | (Inr items, w'') \<Rightarrow>
               ((emptyResult, None), pauseItems r schedule items \<lparr> world = w'', trace = [] \<rparr>)))"

text \<open>
  A cluster of jobs for running the propagator: the jobs by key and a script of faults
  for the coming \<open>Update\<close> calls, as above.
\<close>

record JobCluster =
  schedule :: "ObjectMeta option"
  jobs :: "ObjectMeta list"
  jobFaults :: "error list"

definition jobGet :: "key \<Rightarrow> JobCluster \<Rightarrow> (error + ObjectMeta) \<times> JobCluster" where
  "jobGet k c = (case find (\<lambda>j. keyOf j = k) (jobs c) of None \<Rightarrow> (Inl NotFound, c) | Some j \<Rightarrow> (Inr j, c))"

definition jobUpdate :: "ObjectMeta \<Rightarrow> JobCluster \<Rightarrow> error option \<times> JobCluster" where
  "jobUpdate item c =
     (case jobFaults c of
        [] \<Rightarrow> (None, c\<lparr> jobs := map (\<lambda>j. if keyOf j = keyOf item then item else j) (jobs c) \<rparr>)
      | e # es \<Rightarrow> (Some e, c\<lparr> jobFaults := es \<rparr>))"

definition jobReconciler :: "string \<Rightarrow> JobCluster PauseReconciler" where
  "jobReconciler pk =
     \<lparr> Get_Schedule = (\<lambda>k c. (case schedule c of None \<Rightarrow> Inl NotFound | Some sch \<Rightarrow> Inr sch, c)),
       ListActiveJobs = (\<lambda>sch c. (Inr (jobs c), c)),
       Get_Job = jobGet,
       Update_Job = jobUpdate,
       Schedule_IsPaused = IsPaused pk,
       PauseAnnotationKey = pk \<rparr>"

section \<open>Parallel node reconciler\<close>

text \<open>
  Modelled from the spec: the declarations of the workflow node, its type and its
  conditions are not among the sources. The spec gives the node type as one of Chaos,
  Serial, Parallel, Suspend, Task, and a condition as \<open>{type, status, reason}\<close>.
\<close>

datatype NodeType = TypeChaos | TypeSerial | TypeParallel | TypeSuspend | TypeTask

datatype ConditionType = ConditionAccomplished | ConditionDeadlineExceeded

datatype ConditionStatus = ConditionTrue | ConditionFalse

record WorkflowNodeCondition =
  Type :: ConditionType
  Status :: ConditionStatus
  Reason :: string

record WorkflowNode =
  Meta :: ObjectMeta
  SpecType :: NodeType
  WorkflowName :: string
  Tasks :: "string list"
  ActiveChildren :: "string list"
  FinishedChildren :: "string list"
  Conditions :: "WorkflowNodeCondition list"

text \<open>
  Modelled from the spec: \<open>SetCondition\<close> is not among the sources. The spec has
  conditions "set-or-replace by type, never duplicated".
\<close>

definition SetCondition :: "WorkflowNode \<Rightarrow> WorkflowNodeCondition \<Rightarrow> WorkflowNode" where
  "SetCondition node cond =
     node\<lparr> Conditions := filter (\<lambda>c. Type c \<noteq> Type cond) (Conditions node) @ [cond] \<rparr>"

definition conditionStatus :: "WorkflowNode \<Rightarrow> ConditionType \<Rightarrow> ConditionStatus list" where
  "conditionStatus node t = map Status (filter (\<lambda>c. Type c = t) (Conditions node))"

text \<open>\<open>strings.LastIndex(s, "-")\<close>, as an option, and the name up to it.\<close>

fun lastIndex :: "string \<Rightarrow> nat option" where
  "lastIndex [] = None"
| "lastIndex (c # cs) =
     (case lastIndex cs of
        Some i \<Rightarrow> Some (Suc i)
      | None \<Rightarrow> if c = CHR ''-'' then Some 0 else None)"

definition getTaskNameFromGeneratedName :: "string \<Rightarrow> string" where
  "getTaskNameFromGeneratedName generatedNodeName =
     (case lastIndex generatedNodeName of
        None \<Rightarrow> generatedNodeName
      | Some index \<Rightarrow> take index generatedNodeName)"

text \<open>
  \<open>relativeComplementSet\<close> builds its result by ranging over a Go map, so each name
  comes once and the order is open; the model lists the names in the order of
  \<open>remdups\<close>. Nothing below depends on that order.
\<close>

definition relativeComplementSet :: "string list \<Rightarrow> string list \<Rightarrow> string list" where
  "relativeComplementSet former latter = remdups (filter (\<lambda>k. k \<notin> set latter) former)"

text \<open>
  The collaborators: the cluster client, the children fetcher (active and finished
  children of a node) and the template renderer, none of which is among the sources.
  \<open>'wf\<close> is the parent workflow.
\<close>

record ('w, 'wf) ParallelNodeReconciler =
  Get_Node :: "key \<Rightarrow> 'w \<Rightarrow> (error + WorkflowNode) \<times> 'w"
  fetchChildrenNodes :: "WorkflowNode \<Rightarrow> 'w \<Rightarrow> (error + WorkflowNode list \<times> WorkflowNode list) \<times> 'w"
  Delete_Node :: "WorkflowNode \<Rightarrow> 'w \<Rightarrow> error option \<times> 'w"
  Get_Workflow :: "key \<Rightarrow> 'w \<Rightarrow> (error + 'wf) \<times> 'w"
  renderNodesByTemplates :: "'wf \<Rightarrow> WorkflowNode \<Rightarrow> string list \<Rightarrow> error + WorkflowNode list"
  Create_Node :: "WorkflowNode \<Rightarrow> 'w \<Rightarrow> error option \<times> 'w"
  Status_Update :: "WorkflowNode \<Rightarrow> 'w \<Rightarrow> error option \<times> 'w"

text \<open>Lines 163 to 171: every existing child is deleted; a failure is logged only.\<close>

fun deleteChildren ::
  "('w, 'wf) ParallelNodeReconciler \<Rightarrow> WorkflowNode list \<Rightarrow> ('w, WorkflowNode) Env \<Rightarrow> ('w, WorkflowNode) Env" where
  "deleteChildren r [] s = s"
| "deleteChildren r (childNode # rest) s =
     (let s1 = emit (CallDelete childNode) s
      in case Delete_Node r childNode (world s1) of
           (err, w') \<Rightarrow>
             deleteChildren r rest (logErr err ''failed to delete outdated child node'' (s1\<lparr> world := w' \<rparr>)))"

text \<open>Lines 150 to 174: the tasks to start, given the existing children.\<close>

definition tasksToStartup ::
  "('w, 'wf) ParallelNodeReconciler \<Rightarrow> WorkflowNode \<Rightarrow> WorkflowNode list \<Rightarrow> ('w, WorkflowNode) Env \<Rightarrow>
   string list \<times> ('w, WorkflowNode) Env" where
  "tasksToStartup r node existsChildrenNodes s =
     (let prefixNamesOfNodes = map (\<lambda>childNode. getTaskNameFromGeneratedName (Name (Meta childNode))) existsChildrenNodes
      in if length (relativeComplementSet prefixNamesOfNodes (Tasks node)) > 0
         then (Tasks node, deleteChildren r existsChildrenNodes s)
         else (relativeComplementSet (Tasks node) prefixNamesOfNodes, s))"

text \<open>Lines 202 to 211: the first failed creation ends the batch.\<close>

fun createChildren ::
  "('w, 'wf) ParallelNodeReconciler \<Rightarrow> WorkflowNode list \<Rightarrow> ('w, WorkflowNode) Env \<Rightarrow>
   error option \<times> ('w, WorkflowNode) Env" where
  "createChildren r [] s = (None, s)"
| "createChildren r (childNode # rest) s =
     (let s1 = emit (CallCreate childNode) s
      in case Create_Node r childNode (world s1) of
           (Some err, w') \<Rightarrow> (Some err, emit (LogError (Some err) ''failed to create child node'') (s1\<lparr> world := w' \<rparr>))
         | (None, w') \<Rightarrow> createChildren r rest (s1\<lparr> world := w' \<rparr>))"

text \<open>Lines 181 to 216.\<close>

definition spawnChildren ::
  "('w, 'wf) ParallelNodeReconciler \<Rightarrow> WorkflowNode \<Rightarrow> string list \<Rightarrow> ('w, WorkflowNode) Env \<Rightarrow>
   error option \<times> ('w, WorkflowNode) Env" where
  "spawnChildren r node tasks s =
     (case Get_Workflow r (Namespace (Meta node) @ ''/'' @ WorkflowName node) (world s) of
        (Inl err, w') \<Rightarrow> (Some err, emit (LogError (Some err) ''failed to fetch parent workflow'') (s\<lparr> world := w' \<rparr>))
      | (Inr parentWorkflow, w') \<Rightarrow>
          (case renderNodesByTemplates r parentWorkflow node tasks of
             Inl err \<Rightarrow> (Some err, emit (LogError (Some err) ''failed to render children childrenNodes'') (s\<lparr> world := w' \<rparr>))
           | Inr childrenNodes \<Rightarrow>
               (case createChildren r childrenNodes (s\<lparr> world := w' \<rparr>) of
                  (Some err, s') \<Rightarrow> (Some err, s')
                | (None, s') \<Rightarrow> (None, emit (LogInfo ''serial node spawn new child node'') s'))))"

definition syncChildrenNodes ::
  "('w, 'wf) ParallelNodeReconciler \<Rightarrow> WorkflowNode \<Rightarrow> ('w, WorkflowNode) Env \<Rightarrow>
   error option \<times> ('w, WorkflowNode) Env" where
  "syncChildrenNodes r node s =
     (if length (Tasks node) = 0 then (None, emit (LogInfo ''empty parallel node, NOOP'') s)
      else case fetchChildrenNodes r node (world s) of
             (Inl err, w') \<Rightarrow> (Some err, s\<lparr> world := w' \<rparr>)
           | (Inr (activeChildrenNodes, finishedChildrenNodes), w') \<Rightarrow>
               (case tasksToStartup r node (activeChildrenNodes @ finishedChildrenNodes) (s\<lparr> world := w' \<rparr>) of
                  (tasks, s') \<Rightarrow>
                    if length tasks = 0 then (None, emit (LogInfo ''no need to spawn new child node'') s')
                    else spawnChildren r node tasks s'))"

text \<open>Lines 83 to 125, the function handed to \<open>RetryOnConflict\<close>.\<close>

definition accomplished :: "ConditionStatus \<Rightarrow> WorkflowNodeCondition" where
  "accomplished st = \<lparr> Type = ConditionAccomplished, Status = st, Reason = [] \<rparr>"

definition updateNodeStatus ::
  "('w, 'wf) ParallelNodeReconciler \<Rightarrow> key \<Rightarrow> ('w, WorkflowNode) Env \<Rightarrow> error option \<times> ('w, WorkflowNode) Env" where
  "updateNodeStatus r req s =
     (case Get_Node r req (world s) of
        (Inl err, w') \<Rightarrow> (Some err, s\<lparr> world := w' \<rparr>)
      | (Inr nodeNeedUpdate, w') \<Rightarrow>
          (case fetchChildrenNodes r nodeNeedUpdate w' of
             (Inl err, w'') \<Rightarrow> (Some err, s\<lparr> world := w'' \<rparr>)
           | (Inr (activeChildren, finishedChildren), w'') \<Rightarrow>
               (let n1 = nodeNeedUpdate\<lparr> FinishedChildren := map (\<lambda>c. Name (Meta c)) finishedChildren \<rparr>;
                    n2 = n1\<lparr> ActiveChildren := map (\<lambda>c. Name (Meta c)) activeChildren \<rparr>;
                    n3 = (if length finishedChildren = length (Tasks n2)
                          then SetCondition n2 (accomplished ConditionTrue)
                          else SetCondition n2 (accomplished ConditionFalse));
                    s1 = emit (CallUpdate req n3) (s\<lparr> world := w'' \<rparr>)
                in case Status_Update r n3 (world s1) of
                     (err, w3) \<Rightarrow> (err, s1\<lparr> world := w3 \<rparr>))))"

definition IgnoreNotFound :: "error \<Rightarrow> error option" where
  "IgnoreNotFound err = (if err = NotFound then None else Some err)"

text \<open>
  Lines 51 to 134. The deferred log line is written on every way out. Line 129 logs the
  variable \<open>err\<close>, which is nil there, not \<open>updateError\<close>.
\<close>

definition parallel_Reconcile ::
  "('w, 'wf) ParallelNodeReconciler \<Rightarrow> key \<Rightarrow> 'w \<Rightarrow> (Result \<times> error option) \<times> ('w, WorkflowNode) Env" where
  "parallel_Reconcile r req w =
     (case
        (case Get_Node r req w of
           (Inl err, w') \<Rightarrow> ((emptyResult, IgnoreNotFound err), \<lparr> world = w', trace = [] \<rparr>)
         | (Inr node, w') \<Rightarrow>
             if SpecType node \<noteq> TypeParallel then ((emptyResult, None), \<lparr> world = w', trace = [] \<rparr>)
             else
               (case syncChildrenNodes r node (emit (LogInfo ''resolve parallel node'') \<lparr> world = w', trace = [] \<rparr>) of
                  (Some err, s1) \<Rightarrow> ((emptyResult, Some err), s1)
                | (None, s1) \<Rightarrow>
                    (case RetryOnConflict DefaultRetry (updateNodeStatus r req) s1 of
                       (Some updateError, s2) \<Rightarrow>
                         ((emptyResult, Some updateError),
                          emit (LogError None ''failed to update the status of node'') s2)
                     | (None, s2) \<Rightarrow> ((emptyResult, None), s2)))) of
        (res, s) \<Rightarrow> (res, emit (LogInfo ''Finished syncing for parallel node'') s))"

text \<open>
  A cluster of workflow nodes for running the reconciler: the node under the request
  key and its children. Rendering names each new child after its task.
\<close>

record NodeCluster =
  parent :: "WorkflowNode option"
  activeNodes :: "WorkflowNode list"
  finishedNodes :: "WorkflowNode list"

definition child :: "string \<Rightarrow> WorkflowNode" where
  "child n =
     \<lparr> Meta = \<lparr> Namespace = ''ns'', Name = n, Annotations = None \<rparr>, SpecType = TypeTask,
       WorkflowName = ''wf'', Tasks = [], ActiveChildren = [], FinishedChildren = [], Conditions = [] \<rparr>"

definition nodeReconciler :: "(NodeCluster, unit) ParallelNodeReconciler" where
  "nodeReconciler =
     \<lparr> Get_Node = (\<lambda>k c. (case parent c of None \<Rightarrow> Inl NotFound | Some n \<Rightarrow> Inr n, c)),
       fetchChildrenNodes = (\<lambda>n c. (Inr (activeNodes c, finishedNodes c), c)),
       Delete_Node = (\<lambda>n c. (None, c\<lparr> activeNodes := removeAll n (activeNodes c),
                                      finishedNodes := removeAll n (finishedNodes c) \<rparr>)),
       Get_Workflow = (\<lambda>k c. (Inr (), c)),
       renderNodesByTemplates = (\<lambda>wf n tasks. Inr (map (\<lambda>t. child (t @ ''-new'')) tasks)),
       Create_Node = (\<lambda>n c. (None, c\<lparr> activeNodes := activeNodes c @ [n] \<rparr>)),
       Status_Update = (\<lambda>n c. (None, c\<lparr> parent := Some n \<rparr>)) \<rparr>"

definition parallelNode :: "string list \<Rightarrow> WorkflowNode" where
  "parallelNode tasks =
     \<lparr> Meta = \<lparr> Namespace = ''ns'', Name = ''parent'', Annotations = None \<rparr>, SpecType = TypeParallel,
       WorkflowName = ''wf'', Tasks = tasks, ActiveChildren = [], FinishedChildren = [], Conditions = [] \<rparr>"

definition nodesOf :: "string list \<Rightarrow> string list \<Rightarrow> string list \<Rightarrow> NodeCluster" where
  "nodesOf tasks act fin =
     \<lparr> parent = Some (parallelNode tasks), activeNodes = map child act, finishedNodes = map child fin \<rparr>"

text \<open>
  What a status write of the parallel node reconciler carries: for some node \<open>n0\<close> and
  some answer of the children fetcher for it, the written node has the tasks of \<open>n0\<close>,
  the names of the fetched children, and one Accomplished condition, True when the
  finished children are as many as the tasks and False otherwise.
\<close>

definition statusWritten ::
  "('w, 'wf) ParallelNodeReconciler \<Rightarrow> key \<times> WorkflowNode \<Rightarrow> bool" where
  "statusWritten r u =
     (\<exists>n0 wa act fin wb.
        fetchChildrenNodes r n0 wa = (Inr (act, fin), wb) \<and>
        Tasks (snd u) = Tasks n0 \<and>
        FinishedChildren (snd u) = map (\<lambda>c. Name (Meta c)) fin \<and>
        ActiveChildren (snd u) = map (\<lambda>c. Name (Meta c)) act \<and>
        conditionStatus (snd u) ConditionAccomplished =
          [if length fin = length (Tasks n0) then ConditionTrue else ConditionFalse])"

section \<open>Concrete inputs\<close>

text \<open>Objects, implementations and clusters on which the theorems below are run.\<close>

definition metaWith :: "string \<Rightarrow> (string \<rightharpoonup> string) option \<Rightarrow> ObjectMeta" where
  "metaWith n ann = \<lparr> Namespace = ''ns'', Name = n, Annotations = ann \<rparr>"

text \<open>
  An implementation that succeeds with the given phase and counts its calls in the
  executor, and one that fails with the given phase and leaves the executor alone.
\<close>

definition okImpl :: "Phase \<Rightarrow> nat \<Rightarrow> Record list \<Rightarrow> unit Obj \<Rightarrow> nat \<Rightarrow> (Phase \<times> error option) \<times> nat" where
  "okImpl ph i rs obj x = ((ph, None), Suc x)"

definition failImpl :: "Phase \<Rightarrow> nat \<Rightarrow> Record list \<Rightarrow> unit Obj \<Rightarrow> nat \<Rightarrow> (Phase \<times> error option) \<times> nat" where
  "failImpl ph i rs obj x = ((ph, Some (Failure ''executor unavailable'')), x)"

definition twoPods :: "unit \<Rightarrow> string list \<times> error option" where
  "twoPods sel = ([''pod-a'', ''pod-b''], None)"

definition healthy :: "((nat, unit) Cluster, unit) Reconciler" where
  "healthy = clusterReconciler (okImpl Injected) (okImpl NotInjected) twoPods"

text \<open>Apply and Recover fail and hand back the phase the record had.\<close>

definition failing :: "((nat, unit) Cluster, unit) Reconciler" where
  "failing = clusterReconciler (failImpl NotInjected) (failImpl Injected) twoPods"

text \<open>Apply and Recover report an error together with the phase they aimed at.\<close>

definition halfway :: "((nat, unit) Cluster, unit) Reconciler" where
  "halfway = clusterReconciler (failImpl Injected) (failImpl NotInjected) twoPods"

definition pod :: "string \<Rightarrow> Phase \<Rightarrow> Record" where
  "pod n ph = \<lparr> RecordId = n, SelectorKey = ''sel'', Phase = ph \<rparr>"

definition chaosObj :: "DesiredPhase \<Rightarrow> Record list option \<Rightarrow> unit Obj" where
  "chaosObj d rs = \<lparr> DesiredPhase = d, Records = rs, SelectorSpecs = [(''sel'', ())] \<rparr>"

definition clusterOf :: "unit Obj \<Rightarrow> error list \<Rightarrow> (nat, unit) Cluster" where
  "clusterOf obj faults = \<lparr> stored = Some obj, executor = 0, updateFaults = faults \<rparr>"

definition varsOf :: "Record list \<Rightarrow> (nat, unit) Cluster \<Rightarrow> ((nat, unit) Cluster, unit) Vars" where
  "varsOf rs c = \<lparr> records = rs, shouldUpdate = False, env = \<lparr> world = c, trace = [] \<rparr> \<rparr>"


definition jobsOf :: "ObjectMeta \<Rightarrow> ObjectMeta list \<Rightarrow> error list \<Rightarrow> JobCluster" where
  "jobsOf sch js faults = \<lparr> schedule = Some sch, jobs = js, jobFaults = faults \<rparr>"


text \<open>A job cluster with no fault pending and the given job keys, in order.\<close>

definition steady :: "key list \<Rightarrow> JobCluster \<Rightarrow> bool" where
  "steady ks c = (jobFaults c = [] \<and> map keyOf (jobs c) = ks)"

section \<open>Theorems\<close>

subsection \<open>Helper lemmas\<close>

lemma trace_emit [simp]: "trace (emit e s) = trace s @ [e]" "world (emit e s) = world s"
  by (simp_all add: emit_def)

lemma implCalls_simps [simp]:
  "implCalls [] = []"
  "implCalls (xs @ ys) = implCalls xs @ implCalls ys"
  "implCalls (e # xs) = (if isImplCall e then e # implCalls xs else implCalls xs)"
  by (simp_all add: implCalls_def)

lemma logErr_simps [simp]:
  "world (logErr err msg s) = world s"
  "implCalls (trace (logErr err msg s)) = implCalls (trace s)"
  by (simp_all add: logErr_def split: option.splits)

lemma length_applyRecord [simp]: "length (records (applyRecord r d obj i v)) = length (records v)"
  by (simp add: applyRecord_def Let_def split: prod.splits)

lemma length_recoverRecord [simp]: "length (records (recoverRecord r d obj i v)) = length (records v)"
  by (simp add: recoverRecord_def Let_def split: prod.splits)

lemma length_reconcileRecord [simp]: "length (records (reconcileRecord r d obj v i)) = length (records v)"
  by (simp add: reconcileRecord_def)

lemma nth_applyRecord: "j \<noteq> i \<Longrightarrow> records (applyRecord r d obj i v) ! j = records v ! j"
  by (simp add: applyRecord_def Let_def split: prod.splits)

lemma nth_recoverRecord: "j \<noteq> i \<Longrightarrow> records (recoverRecord r d obj i v) ! j = records v ! j"
  by (simp add: recoverRecord_def Let_def split: prod.splits)

lemma nth_reconcileRecord: "j \<noteq> i \<Longrightarrow> records (reconcileRecord r d obj v i) ! j = records v ! j"
  by (simp add: reconcileRecord_def nth_applyRecord nth_recoverRecord)

lemma length_foldl_reconcile [simp]:
  "length (records (foldl (reconcileRecord r d obj) v js)) = length (records v)"
  by (induction js arbitrary: v) simp_all

lemma nth_foldl_reconcile:
  "j \<notin> set js \<Longrightarrow> records (foldl (reconcileRecord r d obj) v js) ! j = records v ! j"
  by (induction js arbitrary: v) (simp_all add: nth_reconcileRecord)

lemma loopAt_Suc: "loopAt r d obj v (Suc i) = reconcileRecord r d obj (loopAt r d obj v i) i"
  by (simp add: loopAt_def)

lemma rangeRecords_split:
  assumes "i < length (records v)"
  shows "rangeRecords r d obj v =
         foldl (reconcileRecord r d obj) (loopAt r d obj v (Suc i)) [Suc i..<length (records v)]"
proof -
  have "[0..<length (records v)] = [0..<Suc i] @ [Suc i..<length (records v)]"
    using assms by (metis Suc_leI le0 upt_add_eq_append le_add_diff_inverse)
  then show ?thesis
    by (simp add: rangeRecords_def loopAt_def del: upt_Suc)
qed

lemma reconcileRecord_apply:
  assumes "d = RunningPhase" "Phase (records v ! i) \<noteq> Injected" "i < length (records v)"
    and "Impl_Apply r i (records v) (objView obj (records v)) (world (env v)) = ((phase, err), w')"
  shows "records (reconcileRecord r d obj v i) ! i = (records v ! i)\<lparr> Phase := phase \<rparr>"
    and "world (env (reconcileRecord r d obj v i)) = w'"
    and "implCalls (trace (env (reconcileRecord r d obj v i))) = implCalls (trace (env v)) @ [CallApply i]"
    and "shouldUpdate (reconcileRecord r d obj v i)"
  using assms by (simp_all add: reconcileRecord_def applyRecord_def recoverRecord_def Let_def)

lemma reconcileRecord_recover:
  assumes "d = StoppedPhase" "Phase (records v ! i) \<noteq> NotInjected" "i < length (records v)"
    and "Impl_Recover r i (records v) (objView obj (records v)) (world (env v)) = ((phase, err), w')"
  shows "records (reconcileRecord r d obj v i) ! i = (records v ! i)\<lparr> Phase := phase \<rparr>"
    and "world (env (reconcileRecord r d obj v i)) = w'"
    and "implCalls (trace (env (reconcileRecord r d obj v i))) = implCalls (trace (env v)) @ [CallRecover i]"
    and "shouldUpdate (reconcileRecord r d obj v i)"
  using assms by (simp_all add: reconcileRecord_def applyRecord_def recoverRecord_def Let_def)










lemmas cluster_defs = healthy_def failing_def halfway_def clusterReconciler_def onExecutor_def
  okImpl_def failImpl_def clusterGet_def clusterUpdate_def twoPods_def pod_def chaosObj_def
  clusterOf_def varsOf_def

lemmas loop_defs = loopAt_def rangeRecords_def reconcileRecord_def applyRecord_def
  recoverRecord_def objView_def logErr_def emit_def Let_def

subsection \<open>The experiment reconciler, record by record\<close>



subsection \<open>Bandwidth rate\<close>




subsection \<open>Pause annotation\<close>

text \<open>
  C10. For every chaos kind, IsPaused is true exactly when the annotation map is not nil
  and holds the string "true" under the pause key; a nil map, a missing key and any
  other value give false.
\<close>

theorem IsPaused_exactly_true:
  "IsPaused k meta \<longleftrightarrow> (\<exists>m. Annotations meta = Some m \<and> m k = Some ''true'')"
  by (auto simp: IsPaused_def mapIndex_def split: option.splits)

theorem IsPaused_exactly_true_witness:
  "IsPaused ''pause'' (metaWith ''job'' (Some [''pause'' \<mapsto> ''true''])) \<and>
   \<not> IsPaused ''pause'' (metaWith ''job'' None) \<and>
   \<not> IsPaused ''pause'' (metaWith ''job'' (Some Map.empty)) \<and>
   \<not> IsPaused ''pause'' (metaWith ''job'' (Some [''pause'' \<mapsto> ''True''])) \<and>
   \<not> IsPaused ''pause'' (metaWith ''job'' (Some [''pause'' \<mapsto> ''1''])) \<and>
   \<not> IsPaused ''pause'' (metaWith ''job'' (Some [''pause'' \<mapsto> ''false'']))"
  using IsPaused_exactly_true [of "''pause''" "metaWith ''job'' (Some [''pause'' \<mapsto> ''true''])"]
    IsPaused_exactly_true [of "''pause''" "metaWith ''job'' None"]
    IsPaused_exactly_true [of "''pause''" "metaWith ''job'' (Some Map.empty)"]
    IsPaused_exactly_true [of "''pause''" "metaWith ''job'' (Some [''pause'' \<mapsto> ''True''])"]
    IsPaused_exactly_true [of "''pause''" "metaWith ''job'' (Some [''pause'' \<mapsto> ''1''])"]
    IsPaused_exactly_true [of "''pause''" "metaWith ''job'' (Some [''pause'' \<mapsto> ''false''])"]
  by (simp add: metaWith_def)

subsection \<open>The record list across passes\<close>

lemma updatesOf_append [simp]: "updatesOf (xs @ ys) = updatesOf xs @ updatesOf ys"
  by (induction xs rule: updatesOf.induct) simp_all

lemma updatesOf_logErr [simp]: "updatesOf (trace (logErr err msg s)) = updatesOf (trace s)"
  by (simp add: logErr_def split: option.splits)

lemma trace_world_update [simp]: "trace (s\<lparr> world := w \<rparr>) = trace s"
  by simp

lemma updatesOf_selectRecords:
  "updatesOf (trace (snd (selectRecords r sels recs upd s))) = updatesOf (trace s)"
  by (induction r sels recs upd s rule: selectRecords.induct) (simp_all split: prod.splits)

lemma updatesOf_reconcileRecord:
  "updatesOf (trace (env (reconcileRecord r d obj v i))) = updatesOf (trace (env v))"
  by (simp add: reconcileRecord_def applyRecord_def recoverRecord_def Let_def split: prod.splits)

lemma updatesOf_foldl_reconcile:
  "updatesOf (trace (env (foldl (reconcileRecord r d obj) v js))) = updatesOf (trace (env v))"
  by (induction js arbitrary: v) (simp_all add: updatesOf_reconcileRecord)

lemma ident_Phase_update [simp]: "ident (rec\<lparr> Phase := ph \<rparr>) = ident rec"
  by (simp add: ident_def)

lemma map_ident_update: "map ident (rs[i := (rs ! i)\<lparr> Phase := ph \<rparr>]) = map ident rs"
proof (cases "i < length rs")
  case True
  then show ?thesis by (simp add: map_update list_update_same_conv)
next
  case False
  then have "rs[i := (rs ! i)\<lparr> Phase := ph \<rparr>] = rs"
    by (intro list_update_beyond) simp
  then show ?thesis by (rule arg_cong)
qed

lemma ident_reconcileRecord:
  "map ident (records (reconcileRecord r d obj v i)) = map ident (records v)"
  by (simp add: reconcileRecord_def applyRecord_def recoverRecord_def Let_def map_ident_update
      split: prod.splits)

lemma ident_foldl_reconcile:
  "map ident (records (foldl (reconcileRecord r d obj) v js)) = map ident (records v)"
  by (induction js arbitrary: v) (simp_all add: ident_reconcileRecord)

lemma updatesOf_updateRecords:
  "updateRecords r req recs s = (err, s') \<Longrightarrow>
   set (updatesOf (trace s')) \<subseteq> set (updatesOf (trace s)) \<union> {(k, obj). Records obj = recs}"
  by (auto simp: updateRecords_def Let_def split: prod.splits sum.splits)

lemma updatesOf_retryLoop:
  "retryLoop n (updateRecords r req recs) lastErr s = (err, s') \<Longrightarrow>
   set (updatesOf (trace s')) \<subseteq> set (updatesOf (trace s)) \<union> {(k, obj). Records obj = recs}"
proof (induction n arbitrary: lastErr s)
  case 0
  then show ?case by auto
next
  case (Suc n)
  obtain e1 s1 where step: "updateRecords r req recs s = (e1, s1)"
    by (cases "updateRecords r req recs s")
  note sub1 = updatesOf_updateRecords [OF step]
  show ?case
  proof (cases "e1 = Some Conflict")
    case True
    with Suc.prems step have "retryLoop n (updateRecords r req recs) (Some Conflict) s1 = (err, s')"
      by simp
    from Suc.IH [OF this] sub1 show ?thesis by blast
  next
    case False
    with Suc.prems step have "s' = s1"
      by (cases e1) (auto split: if_splits)
    with sub1 show ?thesis by simp
  qed
qed


lemma selectRecords_result:
  "selectRecords r sels recs upd s = ((recs', upd'), s') \<Longrightarrow>
   (case recs' of None \<Rightarrow> [] | Some rs \<Rightarrow> rs) =
     (case recs of None \<Rightarrow> [] | Some rs \<Rightarrow> rs) @
     concat (map (\<lambda>(name, ts). map (newRecord name) ts) (selectedTargets r sels (world s)))"
proof (induction r sels recs upd s arbitrary: recs' upd' s' rule: selectRecords.induct)
  case (1 r recs upd s)
  then show ?case by simp
next
  case (2 r name sel selectors recs upd s)
  obtain targets err w' where sel: "Selector_Select r sel (world s) = ((targets, err), w')"
    by (metis prod.exhaust)
  from "2.prems" sel
  have rest: "selectRecords r selectors (appendRecords recs (map (newRecord name) targets))
            (upd \<or> targets \<noteq> []) (logErr err ''fail to select'' (s\<lparr> world := w' \<rparr>)) = ((recs', upd'), s')"
    by simp
  have "(case appendRecords recs (map (newRecord name) targets) of None \<Rightarrow> [] | Some rs \<Rightarrow> rs)
        = (case recs of None \<Rightarrow> [] | Some rs \<Rightarrow> rs) @ map (newRecord name) targets"
    by (simp add: appendRecords_def split: option.splits)
  with "2.IH" [OF sel [symmetric] refl rest] sel show ?case
    by simp
qed

lemma ident_newRecord: "ident (newRecord name t) = (t, name)"
  by (simp add: ident_def newRecord_def)

lemma Phase_newRecord: "Phase (newRecord name t) = NotInjected"
  by (simp add: newRecord_def)

lemma ident_concat_new:
  "map ident (concat (map (\<lambda>(name, ts). map (newRecord name) ts) xs)) =
   concat (map (\<lambda>(name, ts). map (\<lambda>t. (t, name)) ts) xs)"
  by (induction xs) (auto simp: ident_newRecord)

lemma processRecords_updates:
  "processRecords r obj s = ((recs, upd), s') \<Longrightarrow> updatesOf (trace s') = updatesOf (trace s)"
  using updatesOf_selectRecords [of r "SelectorSpecs obj" None False s]
  by (auto simp: processRecords_def initialRecords_def rangeRecords_def Let_def updatesOf_foldl_reconcile
      split: if_splits prod.splits option.splits)

lemma processRecords_ident_Some:
  "processRecords r obj s = ((recs, upd), s') \<Longrightarrow> Records obj = Some rs \<Longrightarrow>
   \<exists>rs'. recs = Some rs' \<and> map ident rs' = map ident rs"
  by (auto simp: processRecords_def initialRecords_def rangeRecords_def Let_def ident_foldl_reconcile)

lemma processRecords_ident_None:
  assumes "processRecords r obj s = ((recs, upd), s')" "Records obj = None"
  shows "map ident (case recs of None \<Rightarrow> [] | Some rs \<Rightarrow> rs) =
         concat (map (\<lambda>(name, ts). map (\<lambda>t. (t, name)) ts) (selectedTargets r (SelectorSpecs obj) (world s)))"
proof -
  obtain recs0 upd0 s1 where sel: "selectRecords r (SelectorSpecs obj) None False s = ((recs0, upd0), s1)"
    by (metis prod.exhaust)
  have res: "(case recs0 of None \<Rightarrow> [] | Some rs \<Rightarrow> rs) =
      concat (map (\<lambda>(name, ts). map (newRecord name) ts) (selectedTargets r (SelectorSpecs obj) (world s)))"
    using selectRecords_result [OF sel] by simp
  have "map ident (case recs of None \<Rightarrow> [] | Some rs \<Rightarrow> rs) = map ident (case recs0 of None \<Rightarrow> [] | Some rs \<Rightarrow> rs)"
    using assms sel
    by (auto simp: processRecords_def initialRecords_def rangeRecords_def Let_def ident_foldl_reconcile split: option.splits)
  then show ?thesis by (simp add: res ident_concat_new)
qed

lemma selectRecords_NotInjected:
  assumes "selectRecords r sels None False s = ((recs, upd), s')"
  shows "\<forall>rec \<in> set (case recs of None \<Rightarrow> [] | Some rs \<Rightarrow> rs). Phase rec = NotInjected"
  using selectRecords_result [OF assms] by (auto simp: Phase_newRecord)

lemma common_Reconcile_updates:
  assumes "Client_Get r req w = (Inr obj, w1)"
    and "processRecords r obj \<lparr> world = w1, trace = [] \<rparr> = ((recs, upd), s)"
    and "(k, obj') \<in> set (updatesOf (trace (snd (common_Reconcile r req w))))"
  shows "Records obj' = recs"
proof (cases upd)
  case True
  obtain e s' where retry: "RetryOnConflict DefaultBackoff (updateRecords r req recs) s = (e, s')"
    by (metis prod.exhaust)
  have "updatesOf (trace s) = []"
    using processRecords_updates [OF assms(2)] by simp
  with updatesOf_retryLoop [OF retry [unfolded RetryOnConflict_def]]
  have "set (updatesOf (trace s')) \<subseteq> {(k, obj). Records obj = recs}" by simp
  moreover have "snd (common_Reconcile r req w) = logErr e ''fail to update'' s'"
    using assms(1,2) retry True by (simp add: common_Reconcile_def)
  ultimately show ?thesis using assms(3) by auto
next
  case False
  then have "snd (common_Reconcile r req w) = s"
    using assms(1,2) by (simp add: common_Reconcile_def)
  with processRecords_updates [OF assms(2)] assms(3) show ?thesis by simp
qed

lemmas pass_defs = common_Reconcile_def processRecords_def initialRecords_def updateRecords_def RetryOnConflict_def
  DefaultBackoff_def appendRecords_def newRecord_def

lemma run_healthy_nil:
  "snd (common_Reconcile healthy ''exp'' (clusterOf (chaosObj RunningPhase None) [])) =
   \<lparr> world = \<lparr> stored = Some (chaosObj RunningPhase (Some [pod ''pod-a'' Injected, pod ''pod-b'' Injected])),
                executor = 2, updateFaults = [] \<rparr>,
      trace = [LogInfo ''iterating record'', LogInfo ''apply chaos'', CallApply 0,
               LogInfo ''iterating record'', LogInfo ''apply chaos'', CallApply 1,
               LogInfo ''updating records'',
               CallUpdate ''exp'' (chaosObj RunningPhase (Some [pod ''pod-a'' Injected, pod ''pod-b'' Injected]))] \<rparr>"
  by (simp add: cluster_defs loop_defs pass_defs eval_nat_numeral)

text \<open>
  C5. Take a pass that fetched \<open>obj\<close>, and any status write it issues, with the object
  \<open>obj'\<close> handed to the client. If the record slice of \<open>obj\<close> was not nil, the written
  list is not nil and has the same (target id, selector key) pairs in the same places:
  nothing is added, removed or duplicated, and only phases can differ. If it was nil,
  the written list has one record per target that Select returned, selector by
  selector, and each record was created with phase NotInjected.
\<close>

theorem records_created_once_then_stable:
  assumes "Client_Get r req w = (Inr obj, w1)"
      and "(k, obj') \<in> set (updatesOf (trace (snd (common_Reconcile r req w))))"
  shows "(case Records obj of
            Some rs \<Rightarrow> Records obj' \<noteq> None \<and> map ident (recordsOf obj') = map ident rs
          | None \<Rightarrow>
              map ident (recordsOf obj') =
                concat (map (\<lambda>(name, ts). map (\<lambda>t. (t, name)) ts)
                          (selectedTargets r (SelectorSpecs obj) w1)) \<and>
              (\<forall>recs upd s'.
                 selectRecords r (SelectorSpecs obj) None False \<lparr> world = w1, trace = [] \<rparr> = ((recs, upd), s') \<longrightarrow>
                 (\<forall>rec \<in> set (case recs of None \<Rightarrow> [] | Some rs \<Rightarrow> rs). Phase rec = NotInjected)))"
proof -
  obtain recs upd s where pr: "processRecords r obj \<lparr> world = w1, trace = [] \<rparr> = ((recs, upd), s)"
    by (metis prod.exhaust)
  have recs: "Records obj' = recs"
    by (rule common_Reconcile_updates [OF assms(1) pr assms(2)])
  show ?thesis
  proof (cases "Records obj")
    case None
    then show ?thesis
      using processRecords_ident_None [OF pr None] recs selectRecords_NotInjected
      by (simp add: recordsOf_def) blast
  next
    case (Some rs)
    then show ?thesis
      using processRecords_ident_Some [OF pr Some] recs by (auto simp: recordsOf_def)
  qed
qed

theorem records_created_once_then_stable_witness:
  "Client_Get healthy ''exp'' (clusterOf (chaosObj RunningPhase None) []) =
     (Inr (chaosObj RunningPhase None), clusterOf (chaosObj RunningPhase None) []) \<and>
   (''exp'', chaosObj RunningPhase (Some [pod ''pod-a'' Injected, pod ''pod-b'' Injected]))
     \<in> set (updatesOf (trace (snd (common_Reconcile healthy ''exp''
                (clusterOf (chaosObj RunningPhase None) []))))) \<and>
   map ident (recordsOf (chaosObj RunningPhase (Some [pod ''pod-a'' Injected, pod ''pod-b'' Injected]))) =
     concat (map (\<lambda>(name, ts). map (\<lambda>t. (t, name)) ts)
       (selectedTargets healthy (SelectorSpecs (chaosObj RunningPhase None))
          (clusterOf (chaosObj RunningPhase None) [])))"
proof -
  have g: "Client_Get healthy ''exp'' (clusterOf (chaosObj RunningPhase None) []) =
     (Inr (chaosObj RunningPhase None), clusterOf (chaosObj RunningPhase None) [])"
    by (simp add: cluster_defs)
  have u: "(''exp'', chaosObj RunningPhase (Some [pod ''pod-a'' Injected, pod ''pod-b'' Injected]))
     \<in> set (updatesOf (trace (snd (common_Reconcile healthy ''exp''
                (clusterOf (chaosObj RunningPhase None) [])))))"
    by (simp add: run_healthy_nil)
  have n: "Records (chaosObj RunningPhase None) = None"
    by (simp add: chaosObj_def)
  show ?thesis
    using records_created_once_then_stable [OF g u] g u by (simp add: n)
qed

subsection \<open>Failures of a pass: what is logged stays logged\<close>

lemma trace_logErr_mono: "set (trace s) \<subseteq> set (trace (logErr err msg s))"
  by (auto simp: logErr_def split: option.splits)

lemma trace_selectRecords_mono:
  "set (trace s) \<subseteq> set (trace (snd (selectRecords r sels recs upd s)))"
proof (induction r sels recs upd s rule: selectRecords.induct)
  case (1 r recs upd s)
  then show ?case by simp
next
  case (2 r name sel selectors recs upd s)
  obtain targets err w' where sel: "Selector_Select r sel (world s) = ((targets, err), w')"
    by (metis prod.exhaust)
  have "set (trace s) \<subseteq> set (trace (logErr err ''fail to select'' (s\<lparr> world := w' \<rparr>)))"
    using trace_logErr_mono [of "s\<lparr> world := w' \<rparr>" err] by simp
  with "2.IH" [OF sel [symmetric] refl] sel show ?case
    by auto
qed

lemma trace_reconcileRecord_mono:
  "set (trace (env v)) \<subseteq> set (trace (env (reconcileRecord r d obj v i)))"
  by (auto simp: reconcileRecord_def applyRecord_def recoverRecord_def Let_def logErr_def
      split: prod.splits option.splits)

lemma trace_foldl_reconcile_mono:
  "set (trace (env v)) \<subseteq> set (trace (env (foldl (reconcileRecord r d obj) v js)))"
proof (induction js arbitrary: v)
  case Nil
  then show ?case by simp
next
  case (Cons j js)
  show ?case
    using trace_reconcileRecord_mono [of v r d obj j] Cons.IH [of "reconcileRecord r d obj v j"]
    by auto
qed

lemma trace_updateRecords_mono:
  "set (trace s) \<subseteq> set (trace (snd (updateRecords r req recs s)))"
  by (auto simp: updateRecords_def Let_def split: prod.splits sum.splits)

lemma trace_retryLoop_mono:
  assumes "\<And>s. set (trace s) \<subseteq> set (trace (snd (fn s)))"
  shows "set (trace s) \<subseteq> set (trace (snd (retryLoop n fn lastErr s)))"
proof (induction n arbitrary: lastErr s)
  case 0
  then show ?case by simp
next
  case (Suc n)
  obtain e1 s1 where step: "fn s = (e1, s1)"
    by (cases "fn s")
  have sub1: "set (trace s) \<subseteq> set (trace s1)"
    using assms [of s] step by simp
  show ?case
  proof (cases "e1 = Some Conflict")
    case True
    with step Suc.IH [of s1 "Some Conflict"] sub1 show ?thesis by auto
  next
    case False
    with step sub1 show ?thesis by (cases e1) auto
  qed
qed

lemma trace_processRecords_mono:
  "set (trace s) \<subseteq> set (trace (snd (processRecords r obj s)))"
proof (cases "Records obj")
  case None
  obtain recs0 upd0 s1 where sel: "selectRecords r (SelectorSpecs obj) None False s = ((recs0, upd0), s1)"
    by (metis prod.exhaust)
  have a: "set (trace s) \<subseteq> set (trace s1)"
    using trace_selectRecords_mono [of s r "SelectorSpecs obj" None False] sel by simp
  show ?thesis
  proof (cases recs0)
    case None
    with \<open>Records obj = None\<close> sel a show ?thesis by (simp add: processRecords_def initialRecords_def)
  next
    case (Some rs)
    have "set (trace s1) \<subseteq> set (trace (env (rangeRecords r (DesiredPhase obj) obj
              \<lparr> records = rs, shouldUpdate = upd0, env = s1 \<rparr>)))"
      using trace_foldl_reconcile_mono [of "\<lparr> records = rs, shouldUpdate = upd0, env = s1 \<rparr>"]
      by (simp add: rangeRecords_def)
    with \<open>Records obj = None\<close> sel a Some show ?thesis
      by (auto simp: processRecords_def initialRecords_def Let_def)
  qed
next
  case (Some rs)
  have "set (trace s) \<subseteq> set (trace (env (rangeRecords r (DesiredPhase obj) obj
            \<lparr> records = rs, shouldUpdate = False, env = s \<rparr>)))"
    using trace_foldl_reconcile_mono [of "\<lparr> records = rs, shouldUpdate = False, env = s \<rparr>"]
    by (simp add: rangeRecords_def)
  with Some show ?thesis
    by (auto simp: processRecords_def initialRecords_def Let_def)
qed


lemma trace_common_Reconcile:
  assumes "Client_Get r req w = (Inr obj, w1)"
  shows "set (trace (snd (processRecords r obj \<lparr> world = w1, trace = [] \<rparr>)))
         \<subseteq> set (trace (snd (common_Reconcile r req w)))"
proof -
  obtain recs upd s where pr: "processRecords r obj \<lparr> world = w1, trace = [] \<rparr> = ((recs, upd), s)"
    by (metis prod.exhaust)
  show ?thesis
  proof (cases upd)
    case True
    have "set (trace s) \<subseteq> set (trace (snd (RetryOnConflict DefaultBackoff (updateRecords r req recs) s)))"
      unfolding RetryOnConflict_def
      by (rule trace_retryLoop_mono) (rule trace_updateRecords_mono)
    moreover have "snd (common_Reconcile r req w) =
        logErr (fst (RetryOnConflict DefaultBackoff (updateRecords r req recs) s)) ''fail to update''
          (snd (RetryOnConflict DefaultBackoff (updateRecords r req recs) s))"
      using assms pr True by (simp add: common_Reconcile_def split: prod.splits)
    ultimately show ?thesis
      using pr trace_logErr_mono by fastforce
  next
    case False
    with assms pr show ?thesis by (simp add: common_Reconcile_def)
  qed
qed


lemma reconcileRecord_apply_trace:
  assumes "d = RunningPhase" "Phase (records v ! i) \<noteq> Injected"
    and "Impl_Apply r i (records v) (objView obj (records v)) (world (env v)) = ((phase, Some e), w')"
  shows "trace (env (reconcileRecord r d obj v i)) =
         trace (env v) @ [LogInfo ''iterating record'', LogInfo ''apply chaos'', CallApply i,
                          LogError (Some e) ''fail to apply chaos'']"
  using assms by (simp add: reconcileRecord_def applyRecord_def recoverRecord_def Let_def logErr_def)

lemma reconcileRecord_recover_trace:
  assumes "d = StoppedPhase" "Phase (records v ! i) \<noteq> NotInjected"
    and "Impl_Recover r i (records v) (objView obj (records v)) (world (env v)) = ((phase, Some e), w')"
  shows "trace (env (reconcileRecord r d obj v i)) =
         trace (env v) @ [LogInfo ''iterating record'', LogInfo ''recover chaos'', CallRecover i,
                          LogError (Some e) ''fail to recover chaos'']"
  using assms by (simp add: reconcileRecord_def applyRecord_def recoverRecord_def Let_def logErr_def)

lemma shouldUpdate_reconcileRecord_mono:
  "shouldUpdate v \<Longrightarrow> shouldUpdate (reconcileRecord r d obj v i)"
  by (simp add: reconcileRecord_def applyRecord_def recoverRecord_def Let_def split: prod.splits)

lemma shouldUpdate_foldl_mono:
  "shouldUpdate v \<Longrightarrow> shouldUpdate (foldl (reconcileRecord r d obj) v js)"
  by (induction js arbitrary: v) (simp_all add: shouldUpdate_reconcileRecord_mono)

lemma loopAt_records_before:
  "i < length (records v) \<Longrightarrow> records (loopAt r d obj v i) ! i = records v ! i"
  unfolding loopAt_def by (rule nth_foldl_reconcile) simp

lemma rangeRecords_nth_after:
  "i < length (records v) \<Longrightarrow>
   records (rangeRecords r d obj v) ! i = records (loopAt r d obj v (Suc i)) ! i"
  unfolding rangeRecords_split by (rule nth_foldl_reconcile) simp

lemma trace_rangeRecords_after:
  "i < length (records v) \<Longrightarrow>
   set (trace (env (loopAt r d obj v (Suc i)))) \<subseteq> set (trace (env (rangeRecords r d obj v)))"
  unfolding rangeRecords_split by (rule trace_foldl_reconcile_mono)

lemma processRecords_Some:
  "initialRecords r obj s = ((Some rs, upd), s1) \<Longrightarrow>
   processRecords r obj s =
     ((Some (records (rangeRecords r (DesiredPhase obj) obj \<lparr> records = rs, shouldUpdate = upd, env = s1 \<rparr>)),
       shouldUpdate (rangeRecords r (DesiredPhase obj) obj \<lparr> records = rs, shouldUpdate = upd, env = s1 \<rparr>)),
      env (rangeRecords r (DesiredPhase obj) obj \<lparr> records = rs, shouldUpdate = upd, env = s1 \<rparr>))"
  by (simp add: processRecords_def Let_def)

lemma retryLoop_first:
  "\<exists>e s'. retryLoop (Suc n) fn lastErr s = (e, s') \<and> set (trace (snd (fn s))) \<subseteq> set (trace s')"
  if "\<And>s. set (trace s) \<subseteq> set (trace (snd (fn s)))"
proof -
  obtain e1 s1 where step: "fn s = (e1, s1)" by (cases "fn s")
  show ?thesis
  proof (cases "e1 = Some Conflict")
    case True
    then show ?thesis
      using step trace_retryLoop_mono [of fn s1 n "Some Conflict", OF that]
      by (cases "retryLoop n fn (Some Conflict) s1") auto
  next
    case False
    then show ?thesis using step by (cases e1) auto
  qed
qed

lemma common_Reconcile_writes:
  assumes "Client_Get r req w = (Inr obj, w1)"
    and "processRecords r obj \<lparr> world = w1, trace = [] \<rparr> = ((recs, True), s)"
  shows "LogInfo ''updating records'' \<in> set (trace (snd (common_Reconcile r req w)))"
proof -
  have first: "LogInfo ''updating records'' \<in> set (trace (snd (updateRecords r req recs s)))"
    by (auto simp: updateRecords_def Let_def split: prod.splits sum.splits)
  obtain e s' where l: "retryLoop (Suc 3) (updateRecords r req recs) None s = (e, s')"
    and sub: "set (trace (snd (updateRecords r req recs s))) \<subseteq> set (trace s')"
    using retryLoop_first [of "updateRecords r req recs" 3 None s] trace_updateRecords_mono
    by blast
  have "snd (common_Reconcile r req w) = logErr e ''fail to update'' s'"
    using assms l by (simp add: common_Reconcile_def RetryOnConflict_def DefaultBackoff_def eval_nat_numeral)
  with first sub trace_logErr_mono show ?thesis by fastforce
qed










lemma reconcileRecord_needed:
  assumes "d = RunningPhase \<and> Phase (records v ! i) \<noteq> Injected \<or>
           d = StoppedPhase \<and> Phase (records v ! i) \<noteq> NotInjected"
  shows "shouldUpdate (reconcileRecord r d obj v i)"
  using assms
  by (auto simp: reconcileRecord_def applyRecord_def recoverRecord_def Let_def split: prod.splits)

lemma rangeRecords_needed:
  assumes "i < length (records v)"
    and "d = RunningPhase \<and> Phase (records v ! i) \<noteq> Injected \<or>
         d = StoppedPhase \<and> Phase (records v ! i) \<noteq> NotInjected"
  shows "shouldUpdate (rangeRecords r d obj v)"
proof -
  have "shouldUpdate (loopAt r d obj v (Suc i))"
    unfolding loopAt_Suc using assms by (intro reconcileRecord_needed) (simp add: loopAt_records_before)
  then show ?thesis
    unfolding rangeRecords_split [OF assms(1)] by (rule shouldUpdate_foldl_mono)
qed

text \<open>
  C6, as amended. Take a pass that fetched \<open>obj\<close> and starts its loop on the records
  \<open>rs\<close>, and an index \<open>i\<close>. If the Apply (or Recover) called for record \<open>i\<close> returns
  an error together with a phase, the pass logs the error, writes that phase into the
  record (the record keeps its phase when the implementation hands back the one it
  had), and goes on with the records after \<open>i\<close>. Whenever record \<open>i\<close> needed a call,
  failed or not, \<open>shouldUpdate\<close> is set, the status write is attempted, and every
  write carries the whole list as the loop left it.
\<close>

theorem action_error_logged_pass_goes_on:
  assumes "Client_Get r req w = (Inr obj, w1)"
      and "initialRecords r obj \<lparr> world = w1, trace = [] \<rparr> = ((Some rs, upd), s1)"
      and "i < length rs"
  shows
   "(let d = DesiredPhase obj;
         v = \<lparr> records = rs, shouldUpdate = upd, env = s1 \<rparr>;
         vi = loopAt r d obj v i;
         vi' = loopAt r d obj v (Suc i);
         fin = rangeRecords r d obj v;
         whole = trace (snd (common_Reconcile r req w))
     in (\<forall>phase e w'.
           d = RunningPhase \<and> Phase (rs ! i) \<noteq> Injected \<and>
           Impl_Apply r i (records vi) (objView obj (records vi)) (world (env vi)) = ((phase, Some e), w') \<longrightarrow>
             trace (env vi') = trace (env vi) @
               [LogInfo ''iterating record'', LogInfo ''apply chaos'', CallApply i,
                LogError (Some e) ''fail to apply chaos''] \<and>
             LogError (Some e) ''fail to apply chaos'' \<in> set whole \<and>
             records fin ! i = (rs ! i)\<lparr> Phase := phase \<rparr>) \<and>
        (\<forall>phase e w'.
           d = StoppedPhase \<and> Phase (rs ! i) \<noteq> NotInjected \<and>
           Impl_Recover r i (records vi) (objView obj (records vi)) (world (env vi)) = ((phase, Some e), w') \<longrightarrow>
             trace (env vi') = trace (env vi) @
               [LogInfo ''iterating record'', LogInfo ''recover chaos'', CallRecover i,
                LogError (Some e) ''fail to recover chaos''] \<and>
             LogError (Some e) ''fail to recover chaos'' \<in> set whole \<and>
             records fin ! i = (rs ! i)\<lparr> Phase := phase \<rparr>) \<and>
        fin = foldl (reconcileRecord r d obj) vi' [Suc i..<length rs] \<and>
        (d = RunningPhase \<and> Phase (rs ! i) \<noteq> Injected \<or>
         d = StoppedPhase \<and> Phase (rs ! i) \<noteq> NotInjected \<longrightarrow>
           shouldUpdate fin \<and> LogInfo ''updating records'' \<in> set whole \<and>
           (\<forall>k obj'. (k, obj') \<in> set (updatesOf whole) \<longrightarrow> Records obj' = Some (records fin))))"
proof -
  define d where "d = DesiredPhase obj"
  define v where "v = \<lparr> records = rs, shouldUpdate = upd, env = s1 \<rparr>"
  define vi where "vi = loopAt r d obj v i"
  define vi' where "vi' = loopAt r d obj v (Suc i)"
  define fin where "fin = rangeRecords r d obj v"
  define whole where "whole = trace (snd (common_Reconcile r req w))"
  have i: "i < length (records v)" and rs: "records v = rs"
    using assms(3) by (simp_all add: v_def)
  have before: "records vi ! i = rs ! i"
    using loopAt_records_before [OF i] by (simp add: vi_def rs)
  have step: "vi' = reconcileRecord r d obj vi i"
    by (simp add: vi'_def vi_def loopAt_Suc)
  have len: "i < length (records vi)"
    using i by (simp add: vi_def loopAt_def)
  have after: "records fin ! i = records vi' ! i"
    unfolding fin_def vi'_def by (rule rangeRecords_nth_after [OF i])
  have pr: "processRecords r obj \<lparr> world = w1, trace = [] \<rparr> = ((Some (records fin), shouldUpdate fin), env fin)"
    using processRecords_Some [OF assms(2)] by (simp add: fin_def v_def d_def)
  have sub: "set (trace (env vi')) \<subseteq> set whole"
    using trace_rangeRecords_after [OF i, of r d obj] trace_common_Reconcile [OF assms(1)] pr
    by (auto simp: vi'_def fin_def whole_def)
  have cont: "fin = foldl (reconcileRecord r d obj) vi' [Suc i..<length rs]"
    using rangeRecords_split [OF i, of r d obj] by (simp add: fin_def vi'_def rs)
  have A: "trace (env vi') = trace (env vi) @
               [LogInfo ''iterating record'', LogInfo ''apply chaos'', CallApply i,
                LogError (Some e) ''fail to apply chaos''] \<and>
             LogError (Some e) ''fail to apply chaos'' \<in> set whole \<and>
             records fin ! i = (rs ! i)\<lparr> Phase := phase \<rparr>"
    if "d = RunningPhase \<and> Phase (rs ! i) \<noteq> Injected \<and>
        Impl_Apply r i (records vi) (objView obj (records vi)) (world (env vi)) = ((phase, Some e), w')"
    for phase e w'
  proof -
    have t: "trace (env vi') = trace (env vi) @
               [LogInfo ''iterating record'', LogInfo ''apply chaos'', CallApply i,
                LogError (Some e) ''fail to apply chaos'']"
      unfolding step using that before by (intro reconcileRecord_apply_trace) simp_all
    have "records vi' ! i = (records vi ! i)\<lparr> Phase := phase \<rparr>"
      unfolding step using that before len by (intro reconcileRecord_apply(1)) simp_all
    with t sub after before show ?thesis by auto
  qed
  have B: "trace (env vi') = trace (env vi) @
               [LogInfo ''iterating record'', LogInfo ''recover chaos'', CallRecover i,
                LogError (Some e) ''fail to recover chaos''] \<and>
             LogError (Some e) ''fail to recover chaos'' \<in> set whole \<and>
             records fin ! i = (rs ! i)\<lparr> Phase := phase \<rparr>"
    if "d = StoppedPhase \<and> Phase (rs ! i) \<noteq> NotInjected \<and>
        Impl_Recover r i (records vi) (objView obj (records vi)) (world (env vi)) = ((phase, Some e), w')"
    for phase e w'
  proof -
    have t: "trace (env vi') = trace (env vi) @
               [LogInfo ''iterating record'', LogInfo ''recover chaos'', CallRecover i,
                LogError (Some e) ''fail to recover chaos'']"
      unfolding step using that before by (intro reconcileRecord_recover_trace) simp_all
    have "records vi' ! i = (records vi ! i)\<lparr> Phase := phase \<rparr>"
      unfolding step using that before len by (intro reconcileRecord_recover(1)) simp_all
    with t sub after before show ?thesis by auto
  qed
  have C: "shouldUpdate fin \<and> LogInfo ''updating records'' \<in> set whole \<and>
           (\<forall>k obj'. (k, obj') \<in> set (updatesOf whole) \<longrightarrow> Records obj' = Some (records fin))"
    if "d = RunningPhase \<and> Phase (rs ! i) \<noteq> Injected \<or> d = StoppedPhase \<and> Phase (rs ! i) \<noteq> NotInjected"
  proof -
    have su: "shouldUpdate fin"
      unfolding fin_def using that by (intro rangeRecords_needed [OF i]) (simp add: rs)
    with pr have pr': "processRecords r obj \<lparr> world = w1, trace = [] \<rparr> = ((Some (records fin), True), env fin)"
      by simp
    have "LogInfo ''updating records'' \<in> set whole"
      unfolding whole_def by (rule common_Reconcile_writes [OF assms(1) pr'])
    moreover have "Records obj' = Some (records fin)" if "(k, obj') \<in> set (updatesOf whole)" for k obj'
      using common_Reconcile_updates [OF assms(1) pr'] that by (simp add: whole_def)
    ultimately show ?thesis using su by blast
  qed
  show ?thesis
    unfolding Let_def d_def [symmetric] v_def [symmetric] vi_def [symmetric] vi'_def [symmetric]
      fin_def [symmetric] whole_def [symmetric]
    using A B C cont by blast
qed

subsection \<open>Passes on concrete clusters\<close>


lemma run_halfway:
  "common_Reconcile halfway ''exp'' (clusterOf (chaosObj RunningPhase (Some [pod ''pod-a'' NotInjected])) []) =
   ((emptyResult, None),
    \<lparr> world = clusterOf (chaosObj RunningPhase (Some [pod ''pod-a'' Injected])) [],
      trace = [LogInfo ''iterating record'', LogInfo ''apply chaos'', CallApply 0,
               LogError (Some (Failure ''executor unavailable'')) ''fail to apply chaos'',
               LogInfo ''updating records'',
               CallUpdate ''exp'' (chaosObj RunningPhase (Some [pod ''pod-a'' Injected]))] \<rparr>)"
  by (simp add: cluster_defs loop_defs pass_defs eval_nat_numeral)



text \<open>The amended C6 and C9 on concrete clusters, and the inputs at which the claims as stated fail.\<close>

theorem action_error_logged_pass_goes_on_witness:
  "Client_Get halfway ''exp'' (clusterOf (chaosObj RunningPhase (Some [pod ''pod-a'' NotInjected])) []) =
     (Inr (chaosObj RunningPhase (Some [pod ''pod-a'' NotInjected])),
      clusterOf (chaosObj RunningPhase (Some [pod ''pod-a'' NotInjected])) []) \<and>
   initialRecords halfway (chaosObj RunningPhase (Some [pod ''pod-a'' NotInjected]))
     \<lparr> world = clusterOf (chaosObj RunningPhase (Some [pod ''pod-a'' NotInjected])) [], trace = [] \<rparr> =
     ((Some [pod ''pod-a'' NotInjected], False),
      \<lparr> world = clusterOf (chaosObj RunningPhase (Some [pod ''pod-a'' NotInjected])) [], trace = [] \<rparr>) \<and>
   (0::nat) < length [pod ''pod-a'' NotInjected] \<and>
   LogError (Some (Failure ''executor unavailable'')) ''fail to apply chaos''
     \<in> set (trace (snd (common_Reconcile halfway ''exp''
           (clusterOf (chaosObj RunningPhase (Some [pod ''pod-a'' NotInjected])) [])))) \<and>
   LogInfo ''updating records''
     \<in> set (trace (snd (common_Reconcile halfway ''exp''
           (clusterOf (chaosObj RunningPhase (Some [pod ''pod-a'' NotInjected])) []))))"
proof -
  let ?obj = "chaosObj RunningPhase (Some [pod ''pod-a'' NotInjected])"
  let ?c = "clusterOf ?obj []"
  let ?s0 = "\<lparr> world = ?c, trace = [] \<rparr> :: ((nat, unit) Cluster, unit Obj) Env"
  have g: "Client_Get halfway ''exp'' ?c = (Inr ?obj, ?c)"
    by (simp add: cluster_defs)
  have ini: "initialRecords halfway ?obj ?s0 = ((Some [pod ''pod-a'' NotInjected], False), ?s0)"
    by (simp add: initialRecords_def chaosObj_def)
  have len: "(0::nat) < length [pod ''pod-a'' NotInjected]"
    by simp
  have call: "Impl_Apply halfway 0 [pod ''pod-a'' NotInjected] (objView ?obj [pod ''pod-a'' NotInjected]) ?c =
      ((Injected, Some (Failure ''executor unavailable'')), ?c)"
    by (simp add: cluster_defs)
  have d: "DesiredPhase ?obj = RunningPhase" "Phase (pod ''pod-a'' NotInjected) \<noteq> Injected"
    by (simp_all add: chaosObj_def pod_def)
  from action_error_logged_pass_goes_on [OF g ini len]
  have "LogError (Some (Failure ''executor unavailable'')) ''fail to apply chaos''
          \<in> set (trace (snd (common_Reconcile halfway ''exp'' ?c))) \<and>
        LogInfo ''updating records'' \<in> set (trace (snd (common_Reconcile halfway ''exp'' ?c)))"
    using call d by (simp add: Let_def loopAt_def)
  with g ini len show ?thesis by blast
qed

text \<open>
  C6 as stated fails: Apply returns an error with phase Injected for a record that was
  NotInjected, and the pass stores and writes Injected.
\<close>

theorem action_error_phase_counterexample:
  "Impl_Apply halfway 0 [pod ''pod-a'' NotInjected]
     (chaosObj RunningPhase (Some [pod ''pod-a'' NotInjected]))
     (clusterOf (chaosObj RunningPhase (Some [pod ''pod-a'' NotInjected])) []) =
     ((Injected, Some (Failure ''executor unavailable'')),
      clusterOf (chaosObj RunningPhase (Some [pod ''pod-a'' NotInjected])) []) \<and>
   common_Reconcile halfway ''exp'' (clusterOf (chaosObj RunningPhase (Some [pod ''pod-a'' NotInjected])) []) =
   ((emptyResult, None),
    \<lparr> world = clusterOf (chaosObj RunningPhase (Some [pod ''pod-a'' Injected])) [],
      trace = [LogInfo ''iterating record'', LogInfo ''apply chaos'', CallApply 0,
               LogError (Some (Failure ''executor unavailable'')) ''fail to apply chaos'',
               LogInfo ''updating records'',
               CallUpdate ''exp'' (chaosObj RunningPhase (Some [pod ''pod-a'' Injected]))] \<rparr>)"
  by (simp add: cluster_defs loop_defs pass_defs eval_nat_numeral)



subsection \<open>Repeated passes\<close>
















subsection \<open>Pause propagation\<close>

lemma mapIndex_setPause: "mapIndex (Annotations (setPause pk pause item)) pk = pause"
  by (simp add: setPause_def mapIndex_def)

lemma updatePause_updates:
  assumes "updatePause r k pause s = (e, s')"
  shows "\<exists>us. updatesOf (trace s') = updatesOf (trace s) @ us \<and>
              (\<forall>(k', ob) \<in> set us. k' = k \<and> mapIndex (Annotations ob) (PauseAnnotationKey r) = pause)"
  using assms
  by (auto simp: updatePause_def Let_def mapIndex_setPause split: prod.splits sum.splits)

lemma retryLoop_updates:
  assumes "\<And>s e s'. fn s = (e, s') \<Longrightarrow>
             \<exists>us. updatesOf (trace s') = updatesOf (trace s) @ us \<and> (\<forall>u \<in> set us. P u)"
  shows "retryLoop n fn lastErr s = (e, s') \<Longrightarrow>
         \<exists>us. updatesOf (trace s') = updatesOf (trace s) @ us \<and> (\<forall>u \<in> set us. P u)"
proof (induction n arbitrary: lastErr s)
  case 0
  then show ?case by auto
next
  case (Suc n)
  obtain e1 s1 where step: "fn s = (e1, s1)"
    by (cases "fn s")
  from assms [OF step] obtain us1 where us1:
    "updatesOf (trace s1) = updatesOf (trace s) @ us1" "\<forall>u \<in> set us1. P u" by blast
  show ?case
  proof (cases "e1 = Some Conflict")
    case True
    with Suc.prems step have "retryLoop n fn (Some Conflict) s1 = (e, s')" by simp
    from Suc.IH [OF this] obtain us2 where
      "updatesOf (trace s') = updatesOf (trace s1) @ us2" "\<forall>u \<in> set us2. P u" by blast
    with us1 have "updatesOf (trace s') = updatesOf (trace s) @ (us1 @ us2) \<and> (\<forall>u \<in> set (us1 @ us2). P u)"
      by auto
    then show ?thesis by blast
  next
    case False
    with Suc.prems step have "s' = s1" by (cases e1) (auto split: if_splits)
    with us1 show ?thesis by blast
  qed
qed

lemma pauseItems_updates:
  "\<exists>us. updatesOf (trace (pauseItems r sch items s)) = updatesOf (trace s) @ us \<and>
        (\<forall>(k, ob) \<in> set us.
           (\<exists>item \<in> set items. keyOf item = k \<and>
              IsPaused (PauseAnnotationKey r) item \<noteq> Schedule_IsPaused r sch) \<and>
           mapIndex (Annotations ob) (PauseAnnotationKey r) = FormatBool (Schedule_IsPaused r sch))"
proof (induction items arbitrary: s)
  case Nil
  then show ?case by simp
next
  case (Cons item items)
  let ?pk = "PauseAnnotationKey r"
  let ?pause = "FormatBool (Schedule_IsPaused r sch)"
  let ?P = "\<lambda>its (k, ob). (\<exists>it \<in> set its. keyOf it = k \<and> IsPaused ?pk it \<noteq> Schedule_IsPaused r sch) \<and>
                   mapIndex (Annotations ob) ?pk = ?pause"
  show ?case
  proof (cases "IsPaused ?pk item \<noteq> Schedule_IsPaused r sch")
    case False
    from Cons.IH [of s] obtain us where
      "updatesOf (trace (pauseItems r sch items s)) = updatesOf (trace s) @ us" "\<forall>u \<in> set us. ?P items u"
      by blast
    with False show ?thesis by (intro exI [of _ us]) auto
  next
    case True
    obtain e s1 where retry: "RetryOnConflict DefaultBackoff (updatePause r (keyOf item) ?pause) s = (e, s1)"
      by (metis prod.exhaust)
    have "\<exists>us. updatesOf (trace s1) = updatesOf (trace s) @ us \<and>
               (\<forall>u \<in> set us. (\<lambda>(k', ob). k' = keyOf item \<and> mapIndex (Annotations ob) ?pk = ?pause) u)"
      using retry unfolding RetryOnConflict_def
      by (rule retryLoop_updates [rotated]) (rule updatePause_updates)
    then obtain us1 where us1: "updatesOf (trace s1) = updatesOf (trace s) @ us1"
      "\<forall>u \<in> set us1. (\<lambda>(k', ob). k' = keyOf item \<and> mapIndex (Annotations ob) ?pk = ?pause) u"
      by blast
    then have p1: "\<forall>u \<in> set us1. ?P (item # items) u"
      using True by auto
    show ?thesis
    proof (cases e)
      case (Some err)
      with True retry us1(1) p1 show ?thesis
        by (intro exI [of _ us1]) (simp add: Let_def)
    next
      case None
      from Cons.IH [of s1] obtain us2 where us2:
        "updatesOf (trace (pauseItems r sch items s1)) = updatesOf (trace s1) @ us2" "\<forall>u \<in> set us2. ?P items u"
        by blast
      then have "\<forall>u \<in> set us2. ?P (item # items) u" by auto
      with None True retry us1(1) p1 us2(1) show ?thesis
        by (intro exI [of _ "us1 @ us2"]) (auto simp: Let_def)
    qed
  qed
qed

lemma updatePause_ok:
  assumes "I (world s)"
    and "\<forall>w. I w \<longrightarrow> (\<exists>it w'. Get_Job r k w = (Inr it, w') \<and> I w')"
    and "\<forall>ob w. I w \<longrightarrow> (\<exists>w'. Update_Job r ob w = (None, w') \<and> I w')"
  shows "\<exists>ob s'. updatePause r k pause s = (None, s') \<and> I (world s') \<and>
                 updatesOf (trace s') = updatesOf (trace s) @ [(k, ob)]"
proof -
  obtain it w' where g: "Get_Job r k (world s) = (Inr it, w')" "I w'"
    using assms(1,2) by blast
  obtain w'' where u: "Update_Job r (setPause (PauseAnnotationKey r) pause it) w' = (None, w'')" "I w''"
    using assms(3) g(2) by blast
  show ?thesis
    using g u by (simp add: updatePause_def Let_def)
qed

lemma pauseItems_ok:
  assumes "\<forall>item \<in> set items. \<forall>w. I w \<longrightarrow> (\<exists>it w'. Get_Job r (keyOf item) w = (Inr it, w') \<and> I w')"
    and "\<forall>ob w. I w \<longrightarrow> (\<exists>w'. Update_Job r ob w = (None, w') \<and> I w')"
  shows "I (world s) \<Longrightarrow>
         map fst (updatesOf (trace (pauseItems r sch items s))) =
         map fst (updatesOf (trace s)) @
         map keyOf (filter (\<lambda>item. IsPaused (PauseAnnotationKey r) item \<noteq> Schedule_IsPaused r sch) items)"
  using assms(1)
proof (induction items arbitrary: s)
  case Nil
  then show ?case by simp
next
  case (Cons item items)
  let ?pk = "PauseAnnotationKey r"
  let ?pause = "FormatBool (Schedule_IsPaused r sch)"
  have rest: "\<forall>item \<in> set items. \<forall>w. I w \<longrightarrow> (\<exists>it w'. Get_Job r (keyOf item) w = (Inr it, w') \<and> I w')"
    using Cons.prems(2) by simp
  show ?case
  proof (cases "IsPaused ?pk item \<noteq> Schedule_IsPaused r sch")
    case False
    with Cons.IH [OF Cons.prems(1) rest] show ?thesis by simp
  next
    case True
    have get: "\<forall>w. I w \<longrightarrow> (\<exists>it w'. Get_Job r (keyOf item) w = (Inr it, w') \<and> I w')"
      using Cons.prems(2) by simp
    obtain ob s1 where ok: "updatePause r (keyOf item) ?pause s = (None, s1)" "I (world s1)"
      "updatesOf (trace s1) = updatesOf (trace s) @ [(keyOf item, ob)]"
      using updatePause_ok [OF Cons.prems(1) get assms(2)] by blast
    then have "RetryOnConflict DefaultBackoff (updatePause r (keyOf item) ?pause) s = (None, s1)"
      by (simp add: RetryOnConflict_def DefaultBackoff_def eval_nat_numeral)
    with True Cons.IH [OF ok(2) rest] ok(3) show ?thesis
      by (simp add: Let_def)
  qed
qed

text \<open>
  C8, as amended. Take a pass that fetched the schedule and listed its active jobs.
  Every update it issues is for a listed job whose IsPaused differs from the
  schedule's, and hands over an object whose pause annotation is the string form of the
  schedule's pause flag; a job in agreement gets no update. If, from the state the pass
  starts in, every fetch of a listed job and every update succeeds (\<open>I\<close> is a property
  of the cluster that such calls preserve), the pass issues exactly one update per
  disagreeing job, in list order. For a paused schedule with one job annotated "true"
  and one without annotation, that is one update, setting the second job's annotation
  to "true".
\<close>

theorem pause_updates_disagreeing_jobs:
  assumes "Get_Schedule r req w = (Inr sch, w1)" and "ListActiveJobs r sch w1 = (Inr items, w2)"
  shows "(\<forall>(k, ob) \<in> set (updatesOf (trace (snd (pause_Reconcile r req w)))).
            (\<exists>item \<in> set items. keyOf item = k \<and>
               IsPaused (PauseAnnotationKey r) item \<noteq> Schedule_IsPaused r sch) \<and>
            mapIndex (Annotations ob) (PauseAnnotationKey r) =
              FormatBool (Schedule_IsPaused r sch)) \<and>
         (I w2 \<and>
          (\<forall>item \<in> set items. \<forall>w. I w \<longrightarrow> (\<exists>it w'. Get_Job r (keyOf item) w = (Inr it, w') \<and> I w')) \<and>
          (\<forall>ob w. I w \<longrightarrow> (\<exists>w'. Update_Job r ob w = (None, w') \<and> I w')) \<longrightarrow>
            map fst (updatesOf (trace (snd (pause_Reconcile r req w)))) =
            map keyOf (filter (\<lambda>item. IsPaused (PauseAnnotationKey r) item \<noteq>
                                       Schedule_IsPaused r sch) items))"
proof -
  let ?s0 = "\<lparr> world = w2, trace = [] \<rparr> :: (_, ObjectMeta) Env"
  have tr: "snd (pause_Reconcile r req w) = pauseItems r sch items ?s0"
    using assms by (simp add: pause_Reconcile_def)
  have one: "\<forall>(k, ob) \<in> set (updatesOf (trace (pauseItems r sch items ?s0))).
            (\<exists>item \<in> set items. keyOf item = k \<and>
               IsPaused (PauseAnnotationKey r) item \<noteq> Schedule_IsPaused r sch) \<and>
            mapIndex (Annotations ob) (PauseAnnotationKey r) =
              FormatBool (Schedule_IsPaused r sch)"
    using pauseItems_updates [of r sch items ?s0] by auto
  have two: "map fst (updatesOf (trace (pauseItems r sch items ?s0))) =
            map keyOf (filter (\<lambda>item. IsPaused (PauseAnnotationKey r) item \<noteq>
                                       Schedule_IsPaused r sch) items)"
    if "I w2 \<and>
          (\<forall>item \<in> set items. \<forall>w. I w \<longrightarrow> (\<exists>it w'. Get_Job r (keyOf item) w = (Inr it, w') \<and> I w')) \<and>
          (\<forall>ob w. I w \<longrightarrow> (\<exists>w'. Update_Job r ob w = (None, w') \<and> I w'))"
    using pauseItems_ok [of items I r ?s0 sch] that by simp
  show ?thesis
    unfolding tr using one two by blast
qed

lemmas job_defs = jobReconciler_def jobGet_def jobUpdate_def jobsOf_def metaWith_def keyOf_def
  IsPaused_def mapIndex_def setPause_def FormatBool_def

lemmas pause_defs = pause_Reconcile_def updatePause_def RetryOnConflict_def DefaultBackoff_def
  emit_def Let_def

lemma run_pause_scenario:
  "updatesOf (trace (snd (pause_Reconcile (jobReconciler ''pause'') ''sched''
      (jobsOf (metaWith ''sched'' (Some [''pause'' \<mapsto> ''true'']))
         [metaWith ''job1'' (Some [''pause'' \<mapsto> ''true'']), metaWith ''job2'' None] [])))) =
   [(''ns/job2'', metaWith ''job2'' (Some [''pause'' \<mapsto> ''true'']))]"
  by (simp add: job_defs pause_defs eval_nat_numeral)

lemma run_pause_abort:
  "updatesOf (trace (snd (pause_Reconcile (jobReconciler ''pause'') ''sched''
      (jobsOf (metaWith ''sched'' (Some [''pause'' \<mapsto> ''true'']))
         [metaWith ''job1'' None, metaWith ''job2'' None] [Failure ''write refused''])))) =
   [(''ns/job1'', metaWith ''job1'' (Some [''pause'' \<mapsto> ''true'']))]"
  by (simp add: job_defs pause_defs eval_nat_numeral)

lemma run_pause_conflict:
  "updatesOf (trace (snd (pause_Reconcile (jobReconciler ''pause'') ''sched''
      (jobsOf (metaWith ''sched'' (Some [''pause'' \<mapsto> ''true'']))
         [metaWith ''job1'' None] [Conflict])))) =
   [(''ns/job1'', metaWith ''job1'' (Some [''pause'' \<mapsto> ''true''])),
    (''ns/job1'', metaWith ''job1'' (Some [''pause'' \<mapsto> ''true'']))]"
  by (simp add: job_defs pause_defs eval_nat_numeral)


lemma find_key: "k \<in> set (map keyOf js) \<Longrightarrow> \<exists>j. find (\<lambda>j. keyOf j = k) js = Some j"
  by (induction js) auto

lemma steady_get:
  "steady ks c \<Longrightarrow> k \<in> set ks \<Longrightarrow> \<exists>it c'. Get_Job (jobReconciler pk) k c = (Inr it, c') \<and> steady ks c'"
  using find_key [of k "jobs c"]
  by (auto simp: steady_def jobReconciler_def jobGet_def)

lemma steady_update:
  "steady ks c \<Longrightarrow> \<exists>c'. Update_Job (jobReconciler pk) ob c = (None, c') \<and> steady ks c'"
  by (auto simp: steady_def jobReconciler_def jobUpdate_def comp_def intro!: map_cong)

theorem pause_updates_disagreeing_jobs_witness:
  "Get_Schedule (jobReconciler ''pause'') ''sched''
      (jobsOf (metaWith ''sched'' (Some [''pause'' \<mapsto> ''true'']))
         [metaWith ''job1'' (Some [''pause'' \<mapsto> ''true'']), metaWith ''job2'' None] []) =
     (Inr (metaWith ''sched'' (Some [''pause'' \<mapsto> ''true''])),
      jobsOf (metaWith ''sched'' (Some [''pause'' \<mapsto> ''true'']))
         [metaWith ''job1'' (Some [''pause'' \<mapsto> ''true'']), metaWith ''job2'' None] []) \<and>
   map fst (updatesOf (trace (snd (pause_Reconcile (jobReconciler ''pause'') ''sched''
      (jobsOf (metaWith ''sched'' (Some [''pause'' \<mapsto> ''true'']))
         [metaWith ''job1'' (Some [''pause'' \<mapsto> ''true'']), metaWith ''job2'' None] []))))) =
     [''ns/job2''] \<and>
   updatesOf (trace (snd (pause_Reconcile (jobReconciler ''pause'') ''sched''
      (jobsOf (metaWith ''sched'' (Some [''pause'' \<mapsto> ''true'']))
         [metaWith ''job1'' (Some [''pause'' \<mapsto> ''true'']), metaWith ''job2'' None] [])))) =
   [(''ns/job2'', metaWith ''job2'' (Some [''pause'' \<mapsto> ''true'']))]"
proof -
  let ?sch = "metaWith ''sched'' (Some [''pause'' \<mapsto> ''true''])"
  let ?items = "[metaWith ''job1'' (Some [''pause'' \<mapsto> ''true'']), metaWith ''job2'' None]"
  let ?c = "jobsOf ?sch ?items []"
  let ?R = "jobReconciler ''pause''"
  let ?I = "steady [''ns/job1'', ''ns/job2'']"
  have g: "Get_Schedule ?R ''sched'' ?c = (Inr ?sch, ?c)"
    by (simp add: jobReconciler_def jobsOf_def)
  have l: "ListActiveJobs ?R ?sch ?c = (Inr ?items, ?c)"
    by (simp add: jobReconciler_def jobsOf_def)
  have i: "?I ?c"
    by (simp add: steady_def jobsOf_def keyOf_def metaWith_def)
  have gets: "\<forall>item \<in> set ?items. \<forall>w. ?I w \<longrightarrow> (\<exists>it w'. Get_Job ?R (keyOf item) w = (Inr it, w') \<and> ?I w')"
    using steady_get [of "[''ns/job1'', ''ns/job2'']" _ _ "''pause''"]
    by (simp add: keyOf_def metaWith_def)
  have upds: "\<forall>ob w. ?I w \<longrightarrow> (\<exists>w'. Update_Job ?R ob w = (None, w') \<and> ?I w')"
    using steady_update by blast
  have dis: "filter (\<lambda>item. IsPaused (PauseAnnotationKey ?R) item \<noteq> Schedule_IsPaused ?R ?sch) ?items
             = [metaWith ''job2'' None]"
    by (simp add: jobReconciler_def IsPaused_def mapIndex_def metaWith_def)
  from pause_updates_disagreeing_jobs [OF g l, of ?I, THEN conjunct2] i gets upds
  have "map fst (updatesOf (trace (snd (pause_Reconcile ?R ''sched'' ?c)))) =
        map keyOf (filter (\<lambda>item. IsPaused (PauseAnnotationKey ?R) item \<noteq>
                                   Schedule_IsPaused ?R ?sch) ?items)"
    by blast
  then have "map fst (updatesOf (trace (snd (pause_Reconcile ?R ''sched'' ?c)))) = [''ns/job2'']"
    unfolding dis by (simp add: keyOf_def metaWith_def)
  with g run_pause_scenario show ?thesis by simp
qed

text \<open>
  C8 as stated fails: when the update of the first job is refused the pass ends, and the
  second job, which disagrees with the schedule, gets no update; and when the first
  attempt meets a conflict the same job gets two update calls.
\<close>

theorem pause_abort_counterexample:
  "updatesOf (trace (snd (pause_Reconcile (jobReconciler ''pause'') ''sched''
      (jobsOf (metaWith ''sched'' (Some [''pause'' \<mapsto> ''true'']))
         [metaWith ''job1'' None, metaWith ''job2'' None] [Failure ''write refused''])))) =
     [(''ns/job1'', metaWith ''job1'' (Some [''pause'' \<mapsto> ''true'']))] \<and>
   IsPaused ''pause'' (metaWith ''job2'' None) \<noteq>
     Schedule_IsPaused (jobReconciler ''pause'') (metaWith ''sched'' (Some [''pause'' \<mapsto> ''true''])) \<and>
   updatesOf (trace (snd (pause_Reconcile (jobReconciler ''pause'') ''sched''
      (jobsOf (metaWith ''sched'' (Some [''pause'' \<mapsto> ''true'']))
         [metaWith ''job1'' None] [Conflict])))) =
     [(''ns/job1'', metaWith ''job1'' (Some [''pause'' \<mapsto> ''true''])),
      (''ns/job1'', metaWith ''job1'' (Some [''pause'' \<mapsto> ''true'']))]"
  by (simp add: run_pause_abort run_pause_conflict)
    (simp add: jobReconciler_def IsPaused_def mapIndex_def metaWith_def)

subsection \<open>Children of a parallel node\<close>

lemma deletesOf_append [simp]: "deletesOf (xs @ ys) = deletesOf xs @ deletesOf ys"
  by (induction xs rule: deletesOf.induct) simp_all

lemma deletesOf_logErr [simp]: "deletesOf (trace (logErr err msg s)) = deletesOf (trace s)"
  by (simp add: logErr_def split: option.splits)

lemma deletesOf_deleteChildren:
  "deletesOf (trace (deleteChildren r children s)) = deletesOf (trace s) @ children"
  by (induction children arbitrary: s) (simp_all add: Let_def split: prod.splits)

lemma updatesOf_deleteChildren:
  "updatesOf (trace (deleteChildren r children s)) = updatesOf (trace s)"
  by (induction children arbitrary: s) (simp_all add: Let_def split: prod.splits)

lemma updatesOf_createChildren:
  "updatesOf (trace (snd (createChildren r children s))) = updatesOf (trace s)"
  by (induction children arbitrary: s) (simp_all add: Let_def split: prod.splits option.splits)

lemma set_relativeComplementSet [simp]:
  "set (relativeComplementSet former latter) = set former - set latter"
  by (auto simp: relativeComplementSet_def)

lemma distinct_relativeComplementSet [simp]: "distinct (relativeComplementSet former latter)"
  by (simp add: relativeComplementSet_def)

lemma relativeComplementSet_empty:
  "length (relativeComplementSet former latter) > 0 \<longleftrightarrow> \<not> set former \<subseteq> set latter"
proof -
  have "(relativeComplementSet former latter = []) = (set (relativeComplementSet former latter) = {})"
    by (simp only: set_empty)
  then have "(relativeComplementSet former latter = []) = (set former \<subseteq> set latter)"
    by auto
  then show ?thesis by simp
qed

lemma createChildren_updates:
  "createChildren r children s = (e, s') \<Longrightarrow> updatesOf (trace s') = updatesOf (trace s)"
  using updatesOf_createChildren [of r children s] by simp

lemma updatesOf_tasksToStartup:
  "updatesOf (trace (snd (tasksToStartup r node children s))) = updatesOf (trace s)"
  by (simp add: tasksToStartup_def Let_def updatesOf_deleteChildren)

lemma updatesOf_spawnChildren:
  "updatesOf (trace (snd (spawnChildren r node tasks s))) = updatesOf (trace s)"
  by (auto simp: spawnChildren_def split: prod.splits sum.splits option.splits
      dest!: createChildren_updates)

lemma updatesOf_syncChildrenNodes:
  "updatesOf (trace (snd (syncChildrenNodes r node s))) = updatesOf (trace s)"
proof (cases "length (Tasks node) = 0")
  case True
  then show ?thesis by (simp add: syncChildrenNodes_def)
next
  case False
  obtain res w' where f: "fetchChildrenNodes r node (world s) = (res, w')"
    by (metis prod.exhaust)
  show ?thesis
  proof (cases res)
    case (Inl err)
    with False f show ?thesis by (simp add: syncChildrenNodes_def)
  next
    case (Inr p)
    obtain act fin where p: "p = (act, fin)" by (cases p)
    obtain tasks s1 where t: "tasksToStartup r node (act @ fin) (s\<lparr> world := w' \<rparr>) = (tasks, s1)"
      by (metis prod.exhaust)
    have u1: "updatesOf (trace s1) = updatesOf (trace s)"
      using updatesOf_tasksToStartup [of r node "act @ fin" "s\<lparr> world := w' \<rparr>"] t by simp
    show ?thesis
      using False f Inr p t u1 updatesOf_spawnChildren [of r node tasks s1]
      by (simp add: syncChildrenNodes_def)
  qed
qed

lemma conditionStatus_SetCondition:
  "conditionStatus (SetCondition n (accomplished st)) ConditionAccomplished = [st]"
  by (simp add: conditionStatus_def SetCondition_def accomplished_def)

lemma SetCondition_fields [simp]:
  "Tasks (SetCondition n c) = Tasks n"
  "FinishedChildren (SetCondition n c) = FinishedChildren n"
  "ActiveChildren (SetCondition n c) = ActiveChildren n"
  by (simp_all add: SetCondition_def)

lemma updateNodeStatus_updates:
  assumes "updateNodeStatus r req s = (e, s')"
  shows "\<exists>us. updatesOf (trace s') = updatesOf (trace s) @ us \<and> (\<forall>u \<in> set us. statusWritten r u)"
proof -
  obtain res w1 where g: "Get_Node r req (world s) = (res, w1)" by (metis prod.exhaust)
  show ?thesis
  proof (cases res)
    case (Inl err)
    with assms g show ?thesis by (auto simp: updateNodeStatus_def)
  next
    case (Inr n0)
    obtain res2 w2 where f: "fetchChildrenNodes r n0 w1 = (res2, w2)" by (metis prod.exhaust)
    show ?thesis
    proof (cases res2)
      case (Inl err)
      with assms g Inr f show ?thesis by (auto simp: updateNodeStatus_def)
    next
      case (Inr p)
      obtain act fin where p: "p = (act, fin)" by (cases p)
      let ?n2 = "n0\<lparr> FinishedChildren := map (\<lambda>c. Name (Meta c)) fin,
                      ActiveChildren := map (\<lambda>c. Name (Meta c)) act \<rparr>"
      let ?n3 = "if length fin = length (Tasks n0)
                 then SetCondition ?n2 (accomplished ConditionTrue)
                 else SetCondition ?n2 (accomplished ConditionFalse)"
      have w: "statusWritten r (req, ?n3)"
        unfolding statusWritten_def
        using f Inr p
        by (intro exI [of _ n0] exI [of _ w1] exI [of _ act] exI [of _ fin] exI [of _ w2])
           (simp add: conditionStatus_SetCondition)
      have "updatesOf (trace s') = updatesOf (trace s) @ [(req, ?n3)]"
        using assms g \<open>res = Inr n0\<close> f Inr p
        by (auto simp: updateNodeStatus_def Let_def split: prod.splits)
      with w show ?thesis by auto
    qed
  qed
qed

lemma statusWritten_condition:
  "statusWritten r (k, n) \<Longrightarrow>
   conditionStatus n ConditionAccomplished =
     [if length (FinishedChildren n) = length (Tasks n) then ConditionTrue else ConditionFalse]"
  by (auto simp: statusWritten_def)

text \<open>
  C3. Every status write of a parallel node's reconcile pass carries the names of the
  children just fetched and exactly one Accomplished condition, whose status is True if
  the number of finished children equals the number of declared tasks and False in
  every other case.
\<close>

theorem accomplished_iff_all_tasks_finished:
  "\<forall>(k, n) \<in> set (updatesOf (trace (snd (parallel_Reconcile r req w)))).
     statusWritten r (k, n) \<and>
     conditionStatus n ConditionAccomplished =
       [if length (FinishedChildren n) = length (Tasks n) then ConditionTrue else ConditionFalse]"
proof -
  have P: "\<forall>u \<in> set (updatesOf (trace (snd (parallel_Reconcile r req w)))). statusWritten r u"
  proof -
    obtain res w1 where g: "Get_Node r req w = (res, w1)" by (metis prod.exhaust)
    show ?thesis
    proof (cases res)
      case (Inl err)
      with g show ?thesis by (simp add: parallel_Reconcile_def)
    next
      case (Inr node)
      show ?thesis
      proof (cases "SpecType node \<noteq> TypeParallel")
        case True
        with g Inr show ?thesis by (simp add: parallel_Reconcile_def)
      next
        case False
        let ?s0 = "emit (LogInfo ''resolve parallel node'') \<lparr> world = w1, trace = [] \<rparr>"
        obtain e1 s1 where sy: "syncChildrenNodes r node ?s0 = (e1, s1)" by (metis prod.exhaust)
        have u1: "updatesOf (trace s1) = []"
          using updatesOf_syncChildrenNodes [of r node ?s0] sy by simp
        show ?thesis
        proof (cases e1)
          case (Some err)
          with g Inr False sy u1 show ?thesis by (simp add: parallel_Reconcile_def)
        next
          case None
          obtain e2 s2 where re: "RetryOnConflict DefaultRetry (updateNodeStatus r req) s1 = (e2, s2)"
            by (metis prod.exhaust)
          have "\<exists>us. updatesOf (trace s2) = updatesOf (trace s1) @ us \<and> (\<forall>u \<in> set us. statusWritten r u)"
            using re unfolding RetryOnConflict_def
            by (rule retryLoop_updates [rotated]) (rule updateNodeStatus_updates)
          with u1 have "\<forall>u \<in> set (updatesOf (trace s2)). statusWritten r u" by auto
          with g Inr False sy None re show ?thesis
            by (cases e2) (simp_all add: parallel_Reconcile_def)
        qed
      qed
    qed
  qed
  then show ?thesis
    using statusWritten_condition by fastforce
qed

lemma tasksToStartup_cases:
  "tasksToStartup r node existing s = (tasks, s1) \<Longrightarrow>
   (if set (map (\<lambda>c. getTaskNameFromGeneratedName (Name (Meta c))) existing) \<subseteq> set (Tasks node)
    then set tasks = set (Tasks node) - set (map (\<lambda>c. getTaskNameFromGeneratedName (Name (Meta c))) existing) \<and>
         distinct tasks \<and> s1 = s
    else tasks = Tasks node \<and> deletesOf (trace s1) = deletesOf (trace s) @ existing)"
  using relativeComplementSet_empty
    [of "map (\<lambda>c. getTaskNameFromGeneratedName (Name (Meta c))) existing" "Tasks node"]
  by (auto simp: tasksToStartup_def Let_def deletesOf_deleteChildren simp del: set_map split: if_splits)

text \<open>
  C2, as amended. With an empty task list the pass deletes nothing and schedules nothing,
  whatever children exist. With a non-empty task list \<open>D\<close> and the task names \<open>E\<close> of
  the existing children (active then finished, each name cut at its last '-'): if \<open>E\<close>
  has a name outside \<open>D\<close>, a delete is issued for every existing child and the tasks
  to start are all of \<open>D\<close>; otherwise nothing is deleted and the tasks to start are
  exactly the names of \<open>D\<close> not in \<open>E\<close>, each once. The tasks to start are handed to
  the spawning step unless there are none.
\<close>

theorem sync_children_task_diff:
  "(Tasks node = [] \<longrightarrow>
      syncChildrenNodes r node s = (None, emit (LogInfo ''empty parallel node, NOOP'') s)) \<and>
   (Tasks node \<noteq> [] \<and> fetchChildrenNodes r node (world s) = (Inr (act, fin), w') \<longrightarrow>
      (let existing = act @ fin;
           E = set (map (\<lambda>c. getTaskNameFromGeneratedName (Name (Meta c))) existing);
           D = set (Tasks node);
           tasks = fst (tasksToStartup r node existing (s\<lparr> world := w' \<rparr>));
           s1 = snd (tasksToStartup r node existing (s\<lparr> world := w' \<rparr>))
       in (if E \<subseteq> D
           then set tasks = D - E \<and> distinct tasks \<and> s1 = s\<lparr> world := w' \<rparr>
           else tasks = Tasks node \<and> deletesOf (trace s1) = deletesOf (trace s) @ existing) \<and>
          syncChildrenNodes r node s =
            (if tasks = [] then (None, emit (LogInfo ''no need to spawn new child node'') s1)
             else spawnChildren r node tasks s1)))"
proof (intro conjI impI)
  assume "Tasks node = []"
  then show "syncChildrenNodes r node s = (None, emit (LogInfo ''empty parallel node, NOOP'') s)"
    by (simp add: syncChildrenNodes_def)
next
  assume a: "Tasks node \<noteq> [] \<and> fetchChildrenNodes r node (world s) = (Inr (act, fin), w')"
  obtain tasks s1 where t: "tasksToStartup r node (act @ fin) (s\<lparr> world := w' \<rparr>) = (tasks, s1)"
    by (metis prod.exhaust)
  have sy: "syncChildrenNodes r node s =
            (if tasks = [] then (None, emit (LogInfo ''no need to spawn new child node'') s1)
             else spawnChildren r node tasks s1)"
    using a t by (simp add: syncChildrenNodes_def)
  show "let existing = act @ fin;
           E = set (map (\<lambda>c. getTaskNameFromGeneratedName (Name (Meta c))) existing);
           D = set (Tasks node);
           tasks = fst (tasksToStartup r node existing (s\<lparr> world := w' \<rparr>));
           s1 = snd (tasksToStartup r node existing (s\<lparr> world := w' \<rparr>))
       in (if E \<subseteq> D
           then set tasks = D - E \<and> distinct tasks \<and> s1 = s\<lparr> world := w' \<rparr>
           else tasks = Tasks node \<and> deletesOf (trace s1) = deletesOf (trace s) @ existing) \<and>
          syncChildrenNodes r node s =
            (if tasks = [] then (None, emit (LogInfo ''no need to spawn new child node'') s1)
             else spawnChildren r node tasks s1)"
    unfolding Let_def t fst_conv snd_conv
    using tasksToStartup_cases [OF t] sy by (simp split: if_splits)
qed

lemmas node_defs = nodeReconciler_def nodesOf_def parallelNode_def child_def

lemmas sync_defs = syncChildrenNodes_def tasksToStartup_def spawnChildren_def relativeComplementSet_def
  getTaskNameFromGeneratedName_def logErr_def emit_def Let_def

lemma run_diff_abc:
  "fst (tasksToStartup nodeReconciler (parallelNode [''a'', ''b'', ''c'']) (map child [''a-x1'', ''b-x2''])
          \<lparr> world = nodesOf [''a'', ''b'', ''c''] [''a-x1'', ''b-x2''] [], trace = [] \<rparr>) = [''c'']"
  by (simp add: node_defs sync_defs)

lemma run_sync_shrunk:
  "syncChildrenNodes nodeReconciler (parallelNode [''a''])
     \<lparr> world = nodesOf [''a''] [''a-x1'', ''b-x2''] [], trace = [] \<rparr> =
   (None,
    \<lparr> world = \<lparr> parent = Some (parallelNode [''a'']), activeNodes = [child ''a-new''], finishedNodes = [] \<rparr>,
      trace = [CallDelete (child ''a-x1''), CallDelete (child ''b-x2''), CallCreate (child ''a-new''),
               LogInfo ''serial node spawn new child node''] \<rparr>)"
  by (simp add: node_defs sync_defs)

lemma run_sync_empty:
  "syncChildrenNodes nodeReconciler (parallelNode [])
     \<lparr> world = nodesOf [] [''a-x1''] [], trace = [] \<rparr> =
   (None, \<lparr> world = nodesOf [] [''a-x1''] [], trace = [LogInfo ''empty parallel node, NOOP''] \<rparr>)"
  by (simp add: node_defs sync_defs)

lemmas reconcile_defs = parallel_Reconcile_def updateNodeStatus_def RetryOnConflict_def DefaultRetry_def
  SetCondition_def accomplished_def IgnoreNotFound_def

lemma run_parallel_done:
  "updatesOf (trace (snd (parallel_Reconcile nodeReconciler ''parent'' (nodesOf [''a''] [] [''a-x1'']))))
   = [(''parent'', (parallelNode [''a''])
         \<lparr> FinishedChildren := [''a-x1''], Conditions := [accomplished ConditionTrue] \<rparr>)]"
  by (simp add: node_defs sync_defs reconcile_defs eval_nat_numeral)

lemma run_parallel_half:
  "updatesOf (trace (snd (parallel_Reconcile nodeReconciler ''parent''
      (nodesOf [''a'', ''b''] [''b-x2''] [''a-x1'']))))
   = [(''parent'', (parallelNode [''a'', ''b''])
         \<lparr> ActiveChildren := [''b-x2''], FinishedChildren := [''a-x1''],
           Conditions := [accomplished ConditionFalse] \<rparr>)]"
  by (simp add: node_defs sync_defs reconcile_defs eval_nat_numeral)

theorem accomplished_iff_all_tasks_finished_witness:
  "(''parent'', (parallelNode [''a''])
         \<lparr> FinishedChildren := [''a-x1''], Conditions := [accomplished ConditionTrue] \<rparr>)
     \<in> set (updatesOf (trace (snd (parallel_Reconcile nodeReconciler ''parent''
                (nodesOf [''a''] [] [''a-x1'']))))) \<and>
   conditionStatus ((parallelNode [''a''])
         \<lparr> FinishedChildren := [''a-x1''], Conditions := [accomplished ConditionTrue] \<rparr>)
      ConditionAccomplished = [ConditionTrue] \<and>
   (''parent'', (parallelNode [''a'', ''b''])
         \<lparr> ActiveChildren := [''b-x2''], FinishedChildren := [''a-x1''],
           Conditions := [accomplished ConditionFalse] \<rparr>)
     \<in> set (updatesOf (trace (snd (parallel_Reconcile nodeReconciler ''parent''
                (nodesOf [''a'', ''b''] [''b-x2''] [''a-x1'']))))) \<and>
   conditionStatus ((parallelNode [''a'', ''b''])
         \<lparr> ActiveChildren := [''b-x2''], FinishedChildren := [''a-x1''],
           Conditions := [accomplished ConditionFalse] \<rparr>)
      ConditionAccomplished = [ConditionFalse]"
proof -
  let ?n1 = "(parallelNode [''a''])\<lparr> FinishedChildren := [''a-x1''], Conditions := [accomplished ConditionTrue] \<rparr>"
  let ?n2 = "(parallelNode [''a'', ''b''])\<lparr> ActiveChildren := [''b-x2''], FinishedChildren := [''a-x1''],
           Conditions := [accomplished ConditionFalse] \<rparr>"
  have m1: "(''parent'', ?n1) \<in> set (updatesOf (trace (snd (parallel_Reconcile nodeReconciler ''parent''
                (nodesOf [''a''] [] [''a-x1''])))))"
    by (simp add: run_parallel_done)
  have m2: "(''parent'', ?n2) \<in> set (updatesOf (trace (snd (parallel_Reconcile nodeReconciler ''parent''
                (nodesOf [''a'', ''b''] [''b-x2''] [''a-x1''])))))"
    by (simp add: run_parallel_half)
  have c1: "conditionStatus ?n1 ConditionAccomplished = [ConditionTrue]"
    using accomplished_iff_all_tasks_finished
      [of nodeReconciler "''parent''" "nodesOf [''a''] [] [''a-x1'']", THEN bspec, OF m1]
    by (simp add: parallelNode_def)
  have c2: "conditionStatus ?n2 ConditionAccomplished = [ConditionFalse]"
    using accomplished_iff_all_tasks_finished
      [of nodeReconciler "''parent''" "nodesOf [''a'', ''b''] [''b-x2''] [''a-x1'']", THEN bspec, OF m2]
    by (simp add: parallelNode_def)
  from m1 m2 c1 c2 show ?thesis by blast
qed

theorem sync_children_task_diff_witness:
  "Tasks (parallelNode [''a'', ''b'', ''c'']) \<noteq> [] \<and>
   fetchChildrenNodes nodeReconciler (parallelNode [''a'', ''b'', ''c''])
      (nodesOf [''a'', ''b'', ''c''] [''a-x1'', ''b-x2''] []) =
     (Inr (map child [''a-x1'', ''b-x2''], []), nodesOf [''a'', ''b'', ''c''] [''a-x1'', ''b-x2''] []) \<and>
   set (fst (tasksToStartup nodeReconciler (parallelNode [''a'', ''b'', ''c''])
          (map child [''a-x1'', ''b-x2''])
          \<lparr> world = nodesOf [''a'', ''b'', ''c''] [''a-x1'', ''b-x2''] [], trace = [] \<rparr>)) = {''c''} \<and>
   syncChildrenNodes nodeReconciler (parallelNode [''a''])
     \<lparr> world = nodesOf [''a''] [''a-x1'', ''b-x2''] [], trace = [] \<rparr> =
   (None,
    \<lparr> world = \<lparr> parent = Some (parallelNode [''a'']), activeNodes = [child ''a-new''], finishedNodes = [] \<rparr>,
      trace = [CallDelete (child ''a-x1''), CallDelete (child ''b-x2''), CallCreate (child ''a-new''),
               LogInfo ''serial node spawn new child node''] \<rparr>)"
proof -
  let ?node = "parallelNode [''a'', ''b'', ''c'']"
  let ?c = "nodesOf [''a'', ''b'', ''c''] [''a-x1'', ''b-x2''] []"
  let ?s = "\<lparr> world = ?c, trace = [] \<rparr> :: (NodeCluster, WorkflowNode) Env"
  have t: "Tasks ?node \<noteq> []"
    by (simp add: parallelNode_def)
  have f: "fetchChildrenNodes nodeReconciler ?node (world ?s) = (Inr (map child [''a-x1'', ''b-x2''], []), ?c)"
    by (simp add: nodeReconciler_def nodesOf_def)
  have names: "map (\<lambda>c. getTaskNameFromGeneratedName (Name (Meta c))) (map child [''a-x1'', ''b-x2''] @ [])
               = [''a'', ''b'']"
    by (simp add: child_def getTaskNameFromGeneratedName_def)
  have tasks: "Tasks ?node = [''a'', ''b'', ''c'']"
    by (simp add: parallelNode_def)
  from sync_children_task_diff [of ?node nodeReconciler ?s "map child [''a-x1'', ''b-x2'']" "[]" ?c,
      THEN conjunct2, rule_format, OF conjI [OF t f]]
  have "set (fst (tasksToStartup nodeReconciler ?node (map child [''a-x1'', ''b-x2'']) ?s)) = {''c''}"
    unfolding Let_def names tasks by (simp split: if_splits)
  with t f run_sync_shrunk show ?thesis by simp
qed

text \<open>
  C2 as stated fails: with no declared task and a child of task "a", the existing set has
  a name outside the declared list, and the pass deletes nothing.
\<close>

theorem sync_empty_tasks_counterexample:
  "syncChildrenNodes nodeReconciler (parallelNode [])
     \<lparr> world = nodesOf [] [''a-x1''] [], trace = [] \<rparr> =
   (None, \<lparr> world = nodesOf [] [''a-x1''] [], trace = [LogInfo ''empty parallel node, NOOP''] \<rparr>) \<and>
   fetchChildrenNodes nodeReconciler (parallelNode []) (nodesOf [] [''a-x1''] []) =
     (Inr ([child ''a-x1''], []), nodesOf [] [''a-x1''] []) \<and>
   getTaskNameFromGeneratedName (Name (Meta (child ''a-x1''))) = ''a'' \<and>
   ''a'' \<notin> set (Tasks (parallelNode [])) \<and>
   deletesOf (trace (snd (syncChildrenNodes nodeReconciler (parallelNode [])
     \<lparr> world = nodesOf [] [''a-x1''] [], trace = [] \<rparr>))) = []"
  by (simp add: run_sync_empty)
     (simp add: nodeReconciler_def nodesOf_def parallelNode_def child_def getTaskNameFromGeneratedName_def)

end
